theory Spec2Isabelle
  imports Main "HOL-Library.Char_ord" "HOL-Library.List_Lexorder"
begin

section \<open>Bytes, strings and errors\<close>

text \<open>
  A Go \<^verbatim>\<open>string\<close> and a Go \<^verbatim>\<open>[]byte\<close> are both sequences of 8-bit bytes, and the
  package converts freely between them (\<^verbatim>\<open>string(plain)\<close>, \<^verbatim>\<open>[]byte(c.corpID)\<close>).
  Both are modelled as \<^typ>\<open>string\<close>: a list of \<^typ>\<open>char\<close>, each of which is one byte.
  \<^verbatim>\<open>len\<close> is \<^const>\<open>length\<close>; \<^verbatim>\<open>byte(n)\<close> is \<^term>\<open>char_of n\<close>, which keeps the low 8 bits.
  The platform \<^verbatim>\<open>int\<close> is taken to be 64 bits wide, so that every length and every
  \<^verbatim>\<open>uint32\<close> converts to \<^verbatim>\<open>int\<close> without change; \<^verbatim>\<open>uint32\<close> arithmetic is written
  with \<open>mod 4294967296\<close>.
\<close>

type_synonym bytes = string

text \<open>
  Every error the modelled functions return, one constructor per \<^verbatim>\<open>errors.New\<close> or
  \<^verbatim>\<open>fmt.Errorf\<close> site of \<^verbatim>\<open>crypt.go\<close>. \<open>SliceBoundsPanic\<close> is not an error value: it
  stands for the run-time panic of a slice expression whose bounds are out of range.
\<close>

datatype error =
    ErrInvalidSignature       \<comment> \<open>\<^verbatim>\<open>ErrInvalidSignature\<close>, "invalid signature"\<close>
  | ErrInvalidAESKey          \<comment> \<open>\<^verbatim>\<open>ErrInvalidAESKey\<close>, "invalid aes key length"\<close>
  | DecodeAESKeyError         \<comment> \<open>"decode aes key: %w", wrapping the Base64 error\<close>
  | Base64DecodeError         \<comment> \<open>"base64 decode: %w", wrapping the Base64 error\<close>
  | KeySizeError              \<comment> \<open>\<^verbatim>\<open>aes.NewCipher\<close> on a key that is not 16, 24 or 32 bytes\<close>
  | InvalidCiphertextLength   \<comment> \<open>"invalid ciphertext length"\<close>
  | InvalidPaddingSize        \<comment> \<open>"invalid padding size"\<close>
  | InvalidPadding            \<comment> \<open>"invalid padding"\<close>
  | PlaintextTooShort         \<comment> \<open>"plaintext too short"\<close>
  | InvalidMessageLength      \<comment> \<open>"invalid message length"\<close>
  | RandomReadError           \<comment> \<open>\<^verbatim>\<open>io.ReadFull(rand.Reader, ...)\<close> failed\<close>
  | DecodeEchostrError        \<comment> \<open>"decode echostr: %w", wrapping \<^verbatim>\<open>url.EscapeError\<close>\<close>
  | MarshalError              \<comment> \<open>the error of \<^verbatim>\<open>jsonMarshal\<close>\<close>
  | SliceBoundsPanic          \<comment> \<open>run-time panic: slice bounds out of range\<close>

section \<open>Base64 (Go's \<^verbatim>\<open>encoding/base64\<close>, \<^verbatim>\<open>StdEncoding\<close>)\<close>

text \<open>
  \<^verbatim>\<open>base64.StdEncoding\<close> belongs to the Go standard library. It is modelled after the
  library's algorithm: the standard alphabet, \<open>=\<close> padding, non-strict decoding. The
  decoder works quantum by quantum (four alphabet characters), skips \<open>\r\<close> and \<open>\n\<close>
  anywhere, and reports \<^verbatim>\<open>CorruptInputError\<close> for any other foreign character, for
  misplaced or missing padding and for input after the padding. The byte offset that
  \<^verbatim>\<open>CorruptInputError\<close> carries is not modelled.
\<close>

definition encodeStd :: string where
  "encodeStd = ''ABCDEFGHIJKLMNOPQRSTUVWXYZabcdefghijklmnopqrstuvwxyz0123456789+/''"

definition encodeChar :: "nat \<Rightarrow> char" where
  "encodeChar n = encodeStd ! n"

text \<open>\<^verbatim>\<open>decodeMap\<close>: the position of a character in the alphabet, \<open>None\<close> for Go's \<open>0xff\<close>.\<close>

definition decodeMap :: "char \<Rightarrow> nat option" where
  "decodeMap c = map_of (zip encodeStd [0..<64]) c"

text \<open>
  \<^verbatim>\<open>EncodeToString\<close>: three bytes give four characters; a remainder of one or two bytes
  gives two or three characters and \<open>=\<close> padding. Shifts are written as multiplication
  and division, \<^verbatim>\<open>&0x3F\<close> as \<open>mod 64\<close>.
\<close>

fun b64_encode :: "bytes \<Rightarrow> string" where
  "b64_encode (a # b # c # rest) =
     (let val = of_char a * 65536 + of_char b * 256 + of_char c
      in encodeChar (val div 262144 mod 64) # encodeChar (val div 4096 mod 64)
         # encodeChar (val div 64 mod 64) # encodeChar (val mod 64) # b64_encode rest)"
| "b64_encode [a, b] =
     (let val = of_char a * 65536 + of_char b * 256
      in [encodeChar (val div 262144 mod 64), encodeChar (val div 4096 mod 64),
          encodeChar (val div 64 mod 64), CHR ''=''])"
| "b64_encode [a] =
     (let val = of_char a * 65536
      in [encodeChar (val div 262144 mod 64), encodeChar (val div 4096 mod 64),
          CHR ''='', CHR ''=''])"
| "b64_encode [] = []"

definition isNewline :: "char \<Rightarrow> bool" where
  "isNewline c = (c = CHR 0x0A \<or> c = CHR 0x0D)"

fun skipNewlines :: "string \<Rightarrow> string" where
  "skipNewlines [] = []"
| "skipNewlines (c # cs) = (if isNewline c then skipNewlines cs else c # cs)"

text \<open>
  The bytes of one quantum: \<open>dbuf\<close> holds the \<open>dlen\<close> six-bit values read (missing ones
  are zero), and \<open>dlen - 1\<close> bytes come out. Left-over bits are ignored (non-strict).
\<close>

definition quantumBytes :: "nat list \<Rightarrow> bytes" where
  "quantumBytes dbuf =
     (let d = dbuf @ replicate (4 - length dbuf) 0;
          val = d ! 0 * 262144 + d ! 1 * 4096 + d ! 2 * 64 + d ! 3
      in take (length dbuf - 1)
           [char_of (val div 65536), char_of (val div 256), char_of val])"

text \<open>
  \<^verbatim>\<open>Decode\<close> calls \<^verbatim>\<open>decodeQuantum\<close> until the input is used up. \<open>decodeLoop dbuf src\<close> is
  that loop, \<open>dbuf\<close> being the six-bit values of the quantum in progress.
\<close>

fun decodeLoop :: "nat list \<Rightarrow> string \<Rightarrow> unit + bytes" where
  "decodeLoop dbuf [] = (if dbuf = [] then Inr [] else Inl ())"
| "decodeLoop dbuf (c # src) =
     (case decodeMap c of
        Some out \<Rightarrow>
          (if length dbuf = 3
           then (case decodeLoop [] src of
                   Inl e \<Rightarrow> Inl e
                 | Inr rest \<Rightarrow> Inr (quantumBytes (dbuf @ [out]) @ rest))
           else decodeLoop (dbuf @ [out]) src)
      | None \<Rightarrow>
          (if isNewline c then decodeLoop dbuf src
           else if c \<noteq> CHR ''='' then Inl ()
           else if length dbuf < 2 then Inl ()
           else (case (if length dbuf = 2
                       then (case skipNewlines src of
                               [] \<Rightarrow> None
                             | p # r \<Rightarrow> if p \<noteq> CHR ''='' then None else Some r)
                       else Some src) of
                   None \<Rightarrow> Inl ()
                 | Some r \<Rightarrow>
                     if skipNewlines r \<noteq> [] then Inl () else Inr (quantumBytes dbuf))))"

definition b64_decode :: "string \<Rightarrow> unit + bytes" where
  "b64_decode s = decodeLoop [] s"

section \<open>The Crypt context and its key\<close>

record Crypt =
  token :: string
  aesKey :: bytes
  corpID :: string

text \<open>\<^verbatim>\<open>decodeAESKey\<close>: pad the configured key with \<open>=\<close>, decode it, require 32 bytes.\<close>

definition decodeAESKey :: "string \<Rightarrow> error + bytes" where
  "decodeAESKey encodingKey =
     (if length encodingKey = 0 then Inl ErrInvalidAESKey
      else
        let padding = (4 - length encodingKey mod 4) mod 4;
            encoded = encodingKey @ replicate padding (CHR ''='')
        in case b64_decode encoded of
             Inl _ \<Rightarrow> Inl DecodeAESKeyError
           | Inr key \<Rightarrow> if length key \<noteq> 32 then Inl ErrInvalidAESKey else Inr key)"

definition NewCrypt :: "string \<Rightarrow> string \<Rightarrow> string \<Rightarrow> error + Crypt" where
  "NewCrypt tok encodingAESKey corp =
     (case decodeAESKey encodingAESKey of
        Inl err \<Rightarrow> Inl err
      | Inr key \<Rightarrow> Inr \<lparr>token = tok, aesKey = key, corpID = corp\<rparr>)"

text \<open>
  The specification's own wording of the padding rule, for comparison with the
  arithmetic of \<^const>\<open>decodeAESKey\<close>: append \<open>=\<close> until the length is a multiple of 4.
\<close>

function spec_pad_key :: "string \<Rightarrow> string" where
  "spec_pad_key s = (if length s mod 4 = 0 then s else spec_pad_key (s @ [CHR ''='']))"
  by pat_completeness auto
termination
  by (relation "measure (\<lambda>s. (4 - length s mod 4) mod 4)") (auto simp: mod_Suc)


section \<open>Padding, CBC mode and the callback envelope\<close>

text \<open>\<^verbatim>\<open>padBlockSize\<close>: the PKCS#7 block size of the protocol.\<close>

definition padBlockSize :: nat where
  "padBlockSize = 32"

definition bytesRepeat :: "char \<Rightarrow> nat \<Rightarrow> bytes" where
  "bytesRepeat b count = replicate count b"

text \<open>
  \<^verbatim>\<open>pkcs7Pad\<close>. The package calls it with block size 32 only, so \<open>padLen\<close> lies between
  1 and 32.
\<close>

definition pkcs7Pad :: "bytes \<Rightarrow> nat \<Rightarrow> bytes" where
  "pkcs7Pad data blockSize =
     (let padLen = blockSize - length data mod blockSize;
          pad = bytesRepeat (char_of padLen) padLen
      in data @ pad)"

text \<open>
  \<^verbatim>\<open>pkcs7Unpad\<close>. The loop reads \<^verbatim>\<open>data[len(data)-1-i]\<close> for \<open>i < padLen\<close>; the two
  checks before it give \<open>padLen \<le> blockSize \<le> len(data)\<close>, so every read is in range.
\<close>

definition pkcs7Unpad :: "bytes \<Rightarrow> nat \<Rightarrow> error + bytes" where
  "pkcs7Unpad data blockSize =
     (if length data = 0 \<or> length data mod blockSize \<noteq> 0 then Inl InvalidPaddingSize
      else
        let padLen = (of_char (data ! (length data - 1)) :: nat)
        in if padLen = 0 \<or> padLen > blockSize then Inl InvalidPadding
           else if \<not> list_all (\<lambda>i. data ! (length data - 1 - i) = char_of padLen) [0..<padLen]
           then Inl InvalidPadding
           else Inr (take (length data - padLen) data))"

text \<open>
  AES belongs to the Go standard library (\<^verbatim>\<open>crypto/aes\<close>) and is a parameter of the
  model: \<open>encryptBlock key\<close> and \<open>decryptBlock key\<close> are the two directions of the block
  cipher \<^verbatim>\<open>aes.NewCipher(key)\<close> returns, on blocks of \<^verbatim>\<open>aes.BlockSize\<close> = 16 bytes.
\<close>

record aes =
  encryptBlock :: "bytes \<Rightarrow> bytes \<Rightarrow> bytes"
  decryptBlock :: "bytes \<Rightarrow> bytes \<Rightarrow> bytes"

definition aesBlockSize :: nat where
  "aesBlockSize = 16"

text \<open>\<^verbatim>\<open>aes.NewCipher\<close> accepts keys of 16, 24 and 32 bytes; the block it returns is its key here.\<close>

definition aesNewCipher :: "bytes \<Rightarrow> error + bytes" where
  "aesNewCipher key =
     (if length key = 16 \<or> length key = 24 \<or> length key = 32 then Inr key
      else Inl KeySizeError)"

text \<open>
  What the theorems below require of the block cipher: under every key that
  \<^verbatim>\<open>aes.NewCipher\<close> accepts, decryption undoes encryption.
\<close>

definition aes_inverse :: "aes \<Rightarrow> bool" where
  "aes_inverse A \<longleftrightarrow>
     (\<forall>key b. (length key = 16 \<or> length key = 24 \<or> length key = 32) \<and> length b = 16 \<longrightarrow>
        length (encryptBlock A key b) = 16 \<and> decryptBlock A key (encryptBlock A key b) = b)"

fun xorByte :: "char \<Rightarrow> char \<Rightarrow> char" where
  "xorByte (Char a0 a1 a2 a3 a4 a5 a6 a7) (Char b0 b1 b2 b3 b4 b5 b6 b7) =
     Char (a0 \<noteq> b0) (a1 \<noteq> b1) (a2 \<noteq> b2) (a3 \<noteq> b3) (a4 \<noteq> b4) (a5 \<noteq> b5) (a6 \<noteq> b6) (a7 \<noteq> b7)"

definition xorBytes :: "bytes \<Rightarrow> bytes \<Rightarrow> bytes" where
  "xorBytes x y = map2 xorByte x y"

text \<open>
  \<^verbatim>\<open>cipher.NewCBCEncrypter(block, iv).CryptBlocks(dst, src)\<close>: each block is XORed with
  the previous ciphertext block (the IV for the first) and encrypted. The package
  passes whole blocks only (the padded buffer; a ciphertext whose length was checked).
\<close>

function cbcEncrypt :: "(bytes \<Rightarrow> bytes) \<Rightarrow> bytes \<Rightarrow> bytes \<Rightarrow> bytes" where
  "cbcEncrypt E iv src =
     (if src = [] then []
      else let c = E (xorBytes (take 16 src) iv) in c @ cbcEncrypt E c (drop 16 src))"
  by pat_completeness auto
termination
  by (relation "measure (\<lambda>(E, iv, src). length src)") auto

text \<open>\<^verbatim>\<open>cipher.NewCBCDecrypter(block, iv).CryptBlocks(dst, src)\<close>.\<close>

function cbcDecrypt :: "(bytes \<Rightarrow> bytes) \<Rightarrow> bytes \<Rightarrow> bytes \<Rightarrow> bytes" where
  "cbcDecrypt D iv src =
     (if src = [] then []
      else let c = take 16 src in xorBytes (D c) iv @ cbcDecrypt D c (drop 16 src))"
  by pat_completeness auto
termination
  by (relation "measure (\<lambda>(D, iv, src). length src)") auto

text \<open>\<^verbatim>\<open>binary.BigEndian.PutUint32\<close> and \<^verbatim>\<open>binary.BigEndian.Uint32\<close> on a \<^verbatim>\<open>uint32\<close> below \<open>2 ^ 32\<close>.\<close>

definition putUint32 :: "nat \<Rightarrow> bytes" where
  "putUint32 v = [char_of (v div 16777216), char_of (v div 65536), char_of (v div 256), char_of v]"

definition uint32BE :: "bytes \<Rightarrow> nat" where
  "uint32BE b = of_char (b ! 0) * 16777216 + of_char (b ! 1) * 65536 + of_char (b ! 2) * 256 + of_char (b ! 3)"

text \<open>
  \<^verbatim>\<open>(*Crypt).encrypt\<close>. \<open>rnd\<close> is what \<^verbatim>\<open>io.ReadFull(rand.Reader, randomBytes)\<close> delivers:
  \<open>None\<close> when it fails, otherwise the 16 random bytes. \<^verbatim>\<open>uint32(len(plain))\<close> keeps the
  low 32 bits of the length.
\<close>

definition encrypt :: "aes \<Rightarrow> Crypt \<Rightarrow> bytes option \<Rightarrow> bytes \<Rightarrow> error + string" where
  "encrypt A c rnd plain =
     (case aesNewCipher (aesKey c) of
        Inl err \<Rightarrow> Inl err
      | Inr block \<Rightarrow>
          (case rnd of
             None \<Rightarrow> Inl RandomReadError
           | Some randomBytes \<Rightarrow>
               let msgLen = length plain mod 4294967296;
                   lenBytes = putUint32 msgLen;
                   buf = randomBytes @ lenBytes @ plain @ corpID c;
                   buf = pkcs7Pad buf padBlockSize;
                   iv = take aesBlockSize (aesKey c);
                   cipherData = cbcEncrypt (encryptBlock A block) iv buf
               in Inr (b64_encode cipherData)))"

text \<open>
  \<^verbatim>\<open>(*Crypt).decrypt\<close>. \<open>msgLen\<close> is a \<^verbatim>\<open>uint32\<close>, so the upper bound \<^verbatim>\<open>4+msgLen\<close> of the
  slice expression \<^verbatim>\<open>content[4 : 4+msgLen]\<close> is computed modulo \<open>2 ^ 32\<close>; the slice
  expression panics unless \<open>4 \<le> high\<close> and \<open>high\<close> is within the slice. (Go checks
  \<open>high\<close> against the capacity of \<open>content\<close>, which exceeds its length by the padding
  only; after the length check above it, \<open>high\<close> exceeds neither unless it wrapped.)
  The trailing receive id is not read.
\<close>

definition decrypt :: "aes \<Rightarrow> Crypt \<Rightarrow> string \<Rightarrow> error + bytes" where
  "decrypt A c cipherText =
     (case b64_decode cipherText of
        Inl _ \<Rightarrow> Inl Base64DecodeError
      | Inr cipherData \<Rightarrow>
          (case aesNewCipher (aesKey c) of
             Inl err \<Rightarrow> Inl err
           | Inr block \<Rightarrow>
               (if length cipherData mod aesBlockSize \<noteq> 0 then Inl InvalidCiphertextLength
                else
                  let iv = take aesBlockSize (aesKey c);
                      plain = cbcDecrypt (decryptBlock A block) iv cipherData
                  in (case pkcs7Unpad plain padBlockSize of
                        Inl err \<Rightarrow> Inl err
                      | Inr plain \<Rightarrow>
                          (if length plain < 20 then Inl PlaintextTooShort
                           else
                             let content = drop 16 plain;
                                 msgLen = uint32BE (take 4 content)
                             in if msgLen > length (drop 4 content) then Inl InvalidMessageLength
                                else
                                  let high = (4 + msgLen) mod 4294967296
                                  in if 4 \<le> high \<and> high \<le> length content
                                     then Inr (take (high - 4) (drop 4 content))
                                     else Inl SliceBoundsPanic)))))"

text \<open>\<^verbatim>\<open>Encrypt\<close> and \<^verbatim>\<open>Decrypt\<close>, the exported versions.\<close>

definition Encrypt :: "aes \<Rightarrow> Crypt \<Rightarrow> bytes option \<Rightarrow> bytes \<Rightarrow> error + string" where
  "Encrypt A c rnd plain = encrypt A c rnd plain"

definition Decrypt :: "aes \<Rightarrow> Crypt \<Rightarrow> string \<Rightarrow> error + bytes" where
  "Decrypt A c cipherText = decrypt A c cipherText"

section \<open>Signatures and URL verification\<close>

text \<open>\<^verbatim>\<open>hex.EncodeToString\<close>: two lower-case hexadecimal digits per byte.\<close>

definition hexDigit :: "nat \<Rightarrow> char" where
  "hexDigit n = ''0123456789abcdef'' ! n"

definition hexEncodeToString :: "bytes \<Rightarrow> string" where
  "hexEncodeToString b =
     concat (map (\<lambda>c. [hexDigit (of_char c div 16), hexDigit (of_char c mod 16)]) b)"

text \<open>
  \<^verbatim>\<open>CalcSignature\<close>. SHA-1 belongs to the Go standard library and is the parameter
  \<open>sha1\<close>. \<^verbatim>\<open>sort.Strings\<close> orders strings bytewise, which is the lexicographic order
  on \<^typ>\<open>string\<close>; \<^verbatim>\<open>strings.Join(parts, "")\<close> is \<^const>\<open>concat\<close>.
\<close>

definition CalcSignature :: "(bytes \<Rightarrow> bytes) \<Rightarrow> string \<Rightarrow> string \<Rightarrow> string \<Rightarrow> string \<Rightarrow> string" where
  "CalcSignature sha1 tok timestamp nonce data =
     (let parts = sort [tok, timestamp, nonce, data];
          s = concat parts
      in hexEncodeToString (sha1 s))"

text \<open>
  \<^verbatim>\<open>strings.EqualFold\<close>, as it acts when one side consists of hexadecimal digits (the
  expected signature always does): the other side must agree with it up to the case of
  the ASCII letters.
\<close>

definition asciiLower :: "char \<Rightarrow> char" where
  "asciiLower c =
     (if (65 :: nat) \<le> of_char c \<and> of_char c \<le> (90 :: nat) then char_of (of_char c + (32 :: nat)) else c)"

definition EqualFold :: "string \<Rightarrow> string \<Rightarrow> bool" where
  "EqualFold s t = (map asciiLower s = map asciiLower t)"

definition validateSignature ::
  "(bytes \<Rightarrow> bytes) \<Rightarrow> Crypt \<Rightarrow> string \<Rightarrow> string \<Rightarrow> string \<Rightarrow> string \<Rightarrow> bool" where
  "validateSignature sha1 c msgSignature timestamp nonce data =
     (let expected = CalcSignature sha1 (token c) timestamp nonce data
      in EqualFold expected msgSignature)"

text \<open>
  \<^verbatim>\<open>url.QueryUnescape\<close> (Go's \<^verbatim>\<open>net/url\<close>): every \<open>%\<close> must be followed by two
  hexadecimal digits, else \<^verbatim>\<open>EscapeError\<close>; \<open>%XX\<close> becomes the byte \<open>XX\<close> and \<open>+\<close>
  becomes a space. This is also how the HTTP layer decodes the query string before
  \<^verbatim>\<open>handleGet\<close> reads \<open>echostr\<close> from it.
\<close>

definition ishex :: "char \<Rightarrow> bool" where
  "ishex c \<longleftrightarrow> c \<in> set ''0123456789abcdefABCDEF''"

definition unhex :: "char \<Rightarrow> nat" where
  "unhex c =
     (let n = (of_char c :: nat)
      in if 48 \<le> n \<and> n \<le> 57 then n - 48
         else if 97 \<le> n \<and> n \<le> 102 then n - 97 + 10
         else if 65 \<le> n \<and> n \<le> 70 then n - 65 + 10
         else 0)"

fun validEscapes :: "string \<Rightarrow> bool" where
  "validEscapes [] = True"
| "validEscapes (c # s) =
     (if c = CHR ''%''
      then (case s of
              a # b # rest \<Rightarrow> ishex a \<and> ishex b \<and> validEscapes rest
            | _ \<Rightarrow> False)
      else validEscapes s)"

fun unescapeQuery :: "string \<Rightarrow> string" where
  "unescapeQuery [] = []"
| "unescapeQuery (c # s) =
     (if c = CHR ''%''
      then (case s of
              a # b # rest \<Rightarrow> char_of (unhex a * 16 + unhex b) # unescapeQuery rest
            | _ \<Rightarrow> [])
      else if c = CHR ''+'' then CHR '' '' # unescapeQuery s
      else c # unescapeQuery s)"

definition QueryUnescape :: "string \<Rightarrow> unit + string" where
  "QueryUnescape s = (if validEscapes s then Inr (unescapeQuery s) else Inl ())"

text \<open>
  \<^verbatim>\<open>(*Crypt).VerifyURL\<close>: the signature is checked over \<open>echoStr\<close> and, failing that,
  over its query-unescaped form; the string that is decrypted is \<open>echoStr\<close> itself.
\<close>

definition VerifyURL ::
  "aes \<Rightarrow> (bytes \<Rightarrow> bytes) \<Rightarrow> Crypt \<Rightarrow> string \<Rightarrow> string \<Rightarrow> string \<Rightarrow> string \<Rightarrow> error + string" where
  "VerifyURL A sha1 c msgSignature timestamp nonce echoStr =
     (case (if \<not> validateSignature sha1 c msgSignature timestamp nonce echoStr
            then (case QueryUnescape echoStr of
                    Inl _ \<Rightarrow> Inl DecodeEchostrError
                  | Inr decoded \<Rightarrow>
                      (if \<not> validateSignature sha1 c msgSignature timestamp nonce decoded
                       then Inl ErrInvalidSignature
                       else Inr ()))
            else Inr ()) of
        Inl err \<Rightarrow> Inl err
      | Inr _ \<Rightarrow>
          (case decrypt A c echoStr of
             Inl err \<Rightarrow> Inl err
           | Inr plain \<Rightarrow> Inr plain))"


section \<open>Messages, replies and the objects they point to\<close>

text \<open>
  Go pointers and slices are modelled by addresses into a store. The fields of the
  structs of \<^verbatim>\<open>message.go\<close> keep their names, with a prefix where two structs share a
  field name. A pointer field is an \<open>addr option\<close> (\<open>None\<close> is \<^verbatim>\<open>nil\<close>).
\<close>

type_synonym addr = nat

type_synonym time = int

record TextPayload =
  Text_Content :: string

record ImagePayload =
  URL :: string
  Base64 :: string
  MD5 :: string

record MixedItem =
  Item_MsgType :: string
  Item_Text :: "addr option"
  Item_Image :: "addr option"

text \<open>
  A slice \<^verbatim>\<open>[]MixedItem\<close>: the address of its backing array, the offset of its first
  element in that array, and its length. \<open>None\<close> is the \<^verbatim>\<open>nil\<close> slice.
\<close>

record slice =
  arr :: addr
  off :: nat
  len :: nat

type_synonym items = "slice option"

record MessageSender =
  Sender_UserID :: string
  Sender_CorpID :: string

record StreamPayload =
  SP_ID :: string
  SP_Finish :: bool
  SP_Content :: string
  SP_MsgItem :: items

text \<open>
  \<^verbatim>\<open>Message\<close>. The payload pointers other than \<^verbatim>\<open>Stream\<close> (text, image, voice, file,
  mixed, quote, event, attachment) are not read by the functions modelled here and are
  left out.
\<close>

record Message =
  Msg_MsgID :: string
  Msg_CreateTime :: int
  Msg_AIBotID :: string
  Msg_ChatID :: string
  Msg_ChatType :: string
  Msg_From :: MessageSender
  Msg_ResponseURL :: string
  Msg_MsgType :: string
  Msg_Stream :: "StreamPayload option"

record StreamReplyBody =
  Body_ID :: string
  Body_Finish :: bool
  Body_Content :: string
  Body_MsgItem :: items
  Body_Feedback :: "addr option"

record StreamReply =
  Reply_MsgType :: string
  Reply_Stream :: StreamReplyBody

record EncryptedResponse =
  Resp_Encrypt :: string
  Resp_MsgSignature :: string
  Resp_Timestamp :: string
  Resp_Nonce :: string

text \<open>\<^verbatim>\<open>Chunk\<close>, with the \<^verbatim>\<open>MsgItems\<close> field that the stream manager and the bot use.
  \<^verbatim>\<open>Payload\<close> has type \<^verbatim>\<open>any\<close>: a value of an arbitrary type \<open>'p\<close>, or \<^verbatim>\<open>nil\<close>.\<close>

record 'p Chunk =
  Content :: string
  MsgItems :: items
  Payload :: "'p option"
  IsFinal :: bool

text \<open>\<^verbatim>\<open>Stream\<close>. The channel \<^verbatim>\<open>queue\<close> is the list of the chunks it holds, oldest first.\<close>

record 'p Stream =
  StreamID :: string
  MsgID :: string
  ChatID :: string
  UserID :: string
  ResponseURL :: string
  CreatedAt :: time
  LastAccess :: time
  Finished :: bool
  queue :: "'p Chunk list"
  LastChunk :: "'p Chunk option"
  Message :: Message

text \<open>
  The store: the payload structs and backing arrays that items point to, the
  \<^verbatim>\<open>Stream\<close> structs, and the next address to allocate.
\<close>

record 'p heap =
  textObjs :: "addr \<rightharpoonup> TextPayload"
  imageObjs :: "addr \<rightharpoonup> ImagePayload"
  itemArrays :: "addr \<rightharpoonup> MixedItem list"
  streamObjs :: "addr \<rightharpoonup> 'p Stream"
  nextAddr :: addr

text \<open>\<^verbatim>\<open>len(s)\<close> and the elements of a slice.\<close>

definition sliceLen :: "items \<Rightarrow> nat" where
  "sliceLen s = (case s of None \<Rightarrow> 0 | Some sl \<Rightarrow> len sl)"

definition sliceElems :: "'p heap \<Rightarrow> items \<Rightarrow> MixedItem list" where
  "sliceElems h s =
     (case s of
        None \<Rightarrow> []
      | Some sl \<Rightarrow>
          (case itemArrays h (arr sl) of
             None \<Rightarrow> []
           | Some a \<Rightarrow> take (len sl) (drop (off sl) a)))"

text \<open>\<^verbatim>\<open>make([]MixedItem, n)\<close>: a new backing array of \<open>n\<close> zero items.\<close>

definition zeroItem :: MixedItem where
  "zeroItem = \<lparr>Item_MsgType = '''', Item_Text = None, Item_Image = None\<rparr>"

definition sliceMake :: "'p heap \<Rightarrow> nat \<Rightarrow> 'p heap \<times> items" where
  "sliceMake h n =
     (let a = nextAddr h
      in (h\<lparr>itemArrays := (itemArrays h)(a \<mapsto> replicate n zeroItem), nextAddr := a + 1\<rparr>,
          Some \<lparr>arr = a, off = 0, len = n\<rparr>))"

text \<open>\<^verbatim>\<open>copy(dst, src)\<close>: the first \<open>min(len(dst), len(src))\<close> elements of \<open>src\<close> are
  stored into \<open>dst\<close>; the structs are copied, the pointers inside them are shared.\<close>

definition sliceCopy :: "'p heap \<Rightarrow> items \<Rightarrow> items \<Rightarrow> 'p heap" where
  "sliceCopy h dst src =
     (case dst of
        None \<Rightarrow> h
      | Some d \<Rightarrow>
          (case itemArrays h (arr d) of
             None \<Rightarrow> h
           | Some a \<Rightarrow>
               let n = min (len d) (sliceLen src);
                   vals = take n (sliceElems h src)
               in h\<lparr>itemArrays := (itemArrays h)
                       (arr d \<mapsto> take (off d) a @ vals @ drop (off d + length vals) a)\<rparr>))"

text \<open>
  The two ways a caller can change items it holds: the assignment \<^verbatim>\<open>s[i] = v\<close>
  (\<open>None\<close> where Go panics because \<open>i\<close> is out of range) and a write through the image
  pointer of an item, \<^verbatim>\<open>item.Image.Base64 = v\<close>.
\<close>

definition sliceStore :: "'p heap \<Rightarrow> items \<Rightarrow> nat \<Rightarrow> MixedItem \<Rightarrow> 'p heap option" where
  "sliceStore h s i v =
     (case s of
        None \<Rightarrow> None
      | Some sl \<Rightarrow>
          (case itemArrays h (arr sl) of
             None \<Rightarrow> None
           | Some a \<Rightarrow>
               if i < len sl
               then Some (h\<lparr>itemArrays := (itemArrays h)(arr sl \<mapsto> a[off sl + i := v])\<rparr>)
               else None))"

definition imageSetBase64 :: "'p heap \<Rightarrow> addr \<Rightarrow> string \<Rightarrow> 'p heap" where
  "imageSetBase64 h p v =
     (case imageObjs h p of
        None \<Rightarrow> h
      | Some img \<Rightarrow> h\<lparr>imageObjs := (imageObjs h)(p \<mapsto> img\<lparr>Base64 := v\<rparr>)\<rparr>)"

text \<open>
  What \<^verbatim>\<open>json.Marshal\<close> writes for the \<^verbatim>\<open>msg_item\<close> of a reply: each item with the
  payloads its pointers lead to. With \<^verbatim>\<open>omitempty\<close> the key is written only for a
  slice of non-zero length.
\<close>

definition itemView :: "'p heap \<Rightarrow> MixedItem \<Rightarrow> string \<times> TextPayload option \<times> ImagePayload option" where
  "itemView h it =
     (Item_MsgType it,
      (case Item_Text it of None \<Rightarrow> None | Some p \<Rightarrow> textObjs h p),
      (case Item_Image it of None \<Rightarrow> None | Some p \<Rightarrow> imageObjs h p))"

definition replyItems :: "'p heap \<Rightarrow> StreamReply \<Rightarrow> (string \<times> TextPayload option \<times> ImagePayload option) list" where
  "replyItems h reply = map (itemView h) (sliceElems h (Body_MsgItem (Reply_Stream reply)))"

definition hasMsgItemKey :: "StreamReply \<Rightarrow> bool" where
  "hasMsgItemKey reply \<longleftrightarrow> sliceLen (Body_MsgItem (Reply_Stream reply)) > 0"

text \<open>\<^verbatim>\<open>BuildStreamReply\<close>.\<close>

definition BuildStreamReply :: "string \<Rightarrow> string \<Rightarrow> bool \<Rightarrow> StreamReply" where
  "BuildStreamReply streamID content finish =
     \<lparr>Reply_MsgType = ''stream'',
      Reply_Stream = \<lparr>Body_ID = streamID, Body_Finish = finish, Body_Content = content,
                      Body_MsgItem = None, Body_Feedback = None\<rparr>\<rparr>"

text \<open>\<^verbatim>\<open>BuildStreamReplyWithMsgItems\<close>: \<^verbatim>\<open>make\<close> and \<^verbatim>\<open>copy\<close> when \<open>finish\<close> holds and
  there are items.\<close>

definition BuildStreamReplyWithMsgItems ::
  "'p heap \<Rightarrow> string \<Rightarrow> string \<Rightarrow> bool \<Rightarrow> items \<Rightarrow> 'p heap \<times> StreamReply" where
  "BuildStreamReplyWithMsgItems h streamID content finish its =
     (let reply = BuildStreamReply streamID content finish
      in if finish \<and> sliceLen its > 0
         then
           let (h1, cloned) = sliceMake h (sliceLen its);
               h2 = sliceCopy h1 cloned its
           in (h2, reply\<lparr>Reply_Stream := (Reply_Stream reply)\<lparr>Body_MsgItem := cloned\<rparr>\<rparr>)
         else (h, reply))"

text \<open>
  Two facts every reachable store and slice satisfy: allocation hands out an address
  that no backing array has yet, and a slice lies within its backing array.
\<close>

definition heap_ok :: "'p heap \<Rightarrow> bool" where
  "heap_ok h \<longleftrightarrow> (\<forall>a \<in> dom (itemArrays h). a < nextAddr h)"

definition slice_ok :: "'p heap \<Rightarrow> items \<Rightarrow> bool" where
  "slice_ok h s \<longleftrightarrow>
     (case s of
        None \<Rightarrow> True
      | Some sl \<Rightarrow>
          (case itemArrays h (arr sl) of
             None \<Rightarrow> False
           | Some a \<Rightarrow> off sl + len sl \<le> length a))"


section \<open>The stream manager\<close>

text \<open>
  \<^verbatim>\<open>StreamManager\<close>: the table from stream id to \<^verbatim>\<open>*Stream\<close> and the index from message
  id to stream id. The locks are not modelled: every function below runs from start to
  end without another one in between. \<^verbatim>\<open>time.Now()\<close> is the argument \<open>now\<close> of each
  function.
\<close>

record StreamManager =
  streams :: "string \<rightharpoonup> addr"
  msgIndex :: "string \<rightharpoonup> string"
  ttl :: int
  timeout :: int

text \<open>\<^verbatim>\<open>getStream\<close>: the pointer stored for the id, \<^verbatim>\<open>nil\<close> for the empty id or no entry.\<close>

definition getStream :: "StreamManager \<Rightarrow> string \<Rightarrow> addr option" where
  "getStream m streamID = (if streamID = [] then None else streams m streamID)"


text \<open>A write to the \<^verbatim>\<open>Stream\<close> struct behind a pointer.\<close>

definition updStream :: "'p heap \<Rightarrow> addr \<Rightarrow> ('p Stream \<Rightarrow> 'p Stream) \<Rightarrow> 'p heap" where
  "updStream h a f =
     (case streamObjs h a of
        None \<Rightarrow> h
      | Some s \<Rightarrow> h\<lparr>streamObjs := (streamObjs h)(a \<mapsto> f s)\<rparr>)"

definition touch :: "'p heap \<Rightarrow> addr \<Rightarrow> time \<Rightarrow> 'p heap" where
  "touch h a now = updStream h a (\<lambda>s. s\<lparr>LastAccess := now\<rparr>)"

definition setFinished :: "'p heap \<Rightarrow> addr \<Rightarrow> time \<Rightarrow> 'p heap" where
  "setFinished h a now = updStream h a (\<lambda>s. s\<lparr>Finished := True, LastAccess := now\<rparr>)"





text \<open>
  \<^verbatim>\<open>publish\<close>. The channel has capacity 16; a send on a full channel waits for a
  receiver, and in a run without another goroutine it waits for ever: that is the
  result \<open>Blocked\<close>, returned with the store as it is at that point.
\<close>

datatype publish_result = Returned bool | Blocked

definition queueCap :: nat where
  "queueCap = 16"

definition publish ::
  "StreamManager \<Rightarrow> 'p heap \<Rightarrow> string \<Rightarrow> 'p Chunk \<Rightarrow> time \<Rightarrow> 'p heap \<times> publish_result" where
  "publish m h streamID chunk now =
     (case getStream m streamID of
        None \<Rightarrow> (h, Returned False)
      | Some a \<Rightarrow>
          (case streamObjs h a of
             None \<Rightarrow> (h, Returned False)
           | Some stream \<Rightarrow>
               let fullChunk = chunk;
                   fullChunk =
                     (if Payload chunk = None \<and> LastChunk stream \<noteq> None
                      then fullChunk\<lparr>Content := Content (the (LastChunk stream)) @ Content chunk\<rparr>
                      else if Payload chunk \<noteq> None
                      then fullChunk\<lparr>Content := [], MsgItems := None\<rparr>
                      else fullChunk);
                   (h1, fullChunk) =
                     (if sliceLen (MsgItems fullChunk) > 0
                      then
                        let (h1, cloned) = sliceMake h (sliceLen (MsgItems fullChunk));
                            h2 = sliceCopy h1 cloned (MsgItems fullChunk)
                        in (h2, fullChunk\<lparr>MsgItems := cloned\<rparr>)
                      else (h, fullChunk));
                   stream1 = stream\<lparr>LastAccess := now, LastChunk := Some fullChunk\<rparr>;
                   finished = IsFinal fullChunk
               in if length (queue stream1) < queueCap
                  then
                    let stream2 = stream1\<lparr>queue := queue stream1 @ [fullChunk]\<rparr>;
                        h2 = h1\<lparr>streamObjs := (streamObjs h1)(a \<mapsto> stream2)\<rparr>;
                        h3 = (if finished then setFinished h2 a now else h2)
                    in (h3, Returned True)
                  else (h1\<lparr>streamObjs := (streamObjs h1)(a \<mapsto> stream1)\<rparr>, Blocked)))"

text \<open>
  The drain loop of \<^verbatim>\<open>getLatestChunk\<close>: \<open>latestChunk\<close> and \<open>finalSeen\<close> after the chunks
  still in the channel have been received.
\<close>

fun drain :: "'p Chunk \<Rightarrow> bool \<Rightarrow> 'p Chunk list \<Rightarrow> 'p Chunk \<times> bool" where
  "drain latestChunk finalSeen [] = (latestChunk, finalSeen)"
| "drain latestChunk finalSeen (nextChunk # q) =
     drain nextChunk (if IsFinal nextChunk then True else finalSeen) q"

text \<open>
  \<^verbatim>\<open>getLatestChunk\<close>. With a chunk in the channel the receive case of the
  \<^verbatim>\<open>select\<close> runs; with an empty channel, and no publisher running meanwhile, the
  timer case runs. The length of the wait does not enter the result.
\<close>

definition getLatestChunk ::
  "StreamManager \<Rightarrow> 'p heap \<Rightarrow> string \<Rightarrow> time \<Rightarrow> 'p heap \<times> 'p Chunk option" where
  "getLatestChunk m h streamID now =
     (if streamID = [] then (h, None)
      else
        (case getStream m streamID of
           None \<Rightarrow> (h, None)
         | Some a \<Rightarrow>
             (case streamObjs h a of
                None \<Rightarrow> (h, None)
              | Some stream \<Rightarrow>
                  (case queue stream of
                     firstChunk # rest \<Rightarrow>
                       let (latestChunk, finalSeen) = drain firstChunk (IsFinal firstChunk) rest;
                           latestChunk = (if finalSeen then latestChunk\<lparr>IsFinal := True\<rparr> else latestChunk);
                           stream' = stream\<lparr>queue := [],
                                            LastAccess := now,
                                            LastChunk := Some latestChunk,
                                            Finished := (if IsFinal latestChunk then True else Finished stream)\<rparr>
                       in (h\<lparr>streamObjs := (streamObjs h)(a \<mapsto> stream')\<rparr>, Some latestChunk)
                   | [] \<Rightarrow>
                       let cached = (if Finished stream \<and> LastChunk stream \<noteq> None
                                     then LastChunk stream else None)
                       in (h\<lparr>streamObjs := (streamObjs h)(a \<mapsto> stream\<lparr>LastAccess := now\<rparr>)\<rparr>, cached)))))"

definition markFinished :: "StreamManager \<Rightarrow> 'p heap \<Rightarrow> string \<Rightarrow> time \<Rightarrow> 'p heap" where
  "markFinished m h streamID now =
     (case getStream m streamID of
        None \<Rightarrow> h
      | Some a \<Rightarrow> setFinished h a now)"



section \<open>A publisher and a poller side by side\<close>

text \<open>
  \<^verbatim>\<open>publish\<close> runs in the goroutine of \<^verbatim>\<open>doHandler\<close>, \<^verbatim>\<open>getLatestChunk\<close> in the goroutine
  of a refresh request, and neither holds \<^verbatim>\<open>stream.mu\<close> from start to end. What one
  goroutine does without the other being able to come in between is: a section under
  \<^verbatim>\<open>stream.mu\<close>, one send on the queue, one receive from it. These are the events
  below, for one goroutine that publishes and one that polls the same stream. An
  event that carries a time reads the clock.
\<close>

datatype 'p event =
    PubLock "'p Chunk" time  \<comment> \<open>\<^verbatim>\<open>publish\<close>: \<^verbatim>\<open>getStream\<close> and the section under the lock\<close>
  | PubSend                  \<comment> \<open>\<^verbatim>\<open>publish\<close>: the send on the queue, which waits while the queue is full\<close>
  | PubMark time             \<comment> \<open>\<^verbatim>\<open>publish\<close>: \<^verbatim>\<open>setFinished\<close> after a final chunk\<close>
  | PollTouch time           \<comment> \<open>\<^verbatim>\<open>getLatestChunk\<close>: \<^verbatim>\<open>getStream\<close> and \<^verbatim>\<open>touch\<close>\<close>
  | PollRecv                 \<comment> \<open>\<^verbatim>\<open>getLatestChunk\<close>: a receive, the first one or one of the drain loop\<close>
  | PollDefault              \<comment> \<open>\<^verbatim>\<open>getLatestChunk\<close>: the \<^verbatim>\<open>default\<close> case of the drain loop\<close>
  | PollStore time           \<comment> \<open>\<^verbatim>\<open>getLatestChunk\<close>: the section under the lock after the drain loop\<close>
  | PollTimeout time         \<comment> \<open>\<^verbatim>\<open>getLatestChunk\<close>: the timer case and its section under the lock\<close>

text \<open>
  Where each goroutine stands, with its local variables: the publisher holds
  \<open>fullChunk\<close> until it is sent, the poller holds \<open>latestChunk\<close> and \<open>finalSeen\<close>.
\<close>

datatype 'p pub_state =
    PubIdle
  | PubSending addr "'p Chunk"
  | PubMarking addr

datatype 'p poll_state =
    PollIdle
  | PollSelect addr
  | PollDraining addr "'p Chunk" bool
  | PollStoring addr "'p Chunk"

text \<open>
  The store, the two goroutines, and what the calls completed so far have returned.
\<close>

record 'p sys =
  store :: "'p heap"
  pub :: "'p pub_state"
  poll :: "'p poll_state"
  published :: "bool list"
  polled :: "'p Chunk option list"

text \<open>
  The section of \<^verbatim>\<open>publish\<close> under the lock: the cumulative chunk is built from
  \<^verbatim>\<open>stream.LastChunk\<close> and stored there.
\<close>

definition publishLocked ::
  "'p heap \<Rightarrow> addr \<Rightarrow> 'p Stream \<Rightarrow> 'p Chunk \<Rightarrow> time \<Rightarrow> 'p heap \<times> 'p Chunk" where
  "publishLocked h a stream chunk now =
     (let fullChunk = chunk;
          fullChunk =
            (if Payload chunk = None \<and> LastChunk stream \<noteq> None
             then fullChunk\<lparr>Content := Content (the (LastChunk stream)) @ Content chunk\<rparr>
             else if Payload chunk \<noteq> None
             then fullChunk\<lparr>Content := [], MsgItems := None\<rparr>
             else fullChunk);
          (h1, fullChunk) =
            (if sliceLen (MsgItems fullChunk) > 0
             then
               let (h1, cloned) = sliceMake h (sliceLen (MsgItems fullChunk));
                   h2 = sliceCopy h1 cloned (MsgItems fullChunk)
               in (h2, fullChunk\<lparr>MsgItems := cloned\<rparr>)
             else (h, fullChunk));
          stream1 = stream\<lparr>LastAccess := now, LastChunk := Some fullChunk\<rparr>
      in (h1\<lparr>streamObjs := (streamObjs h1)(a \<mapsto> stream1)\<rparr>, fullChunk))"

text \<open>
  One event. \<open>None\<close> means that the event cannot happen in this state: the goroutine
  is elsewhere in its code, a send finds the queue full, a receive finds it empty, or
  the \<^verbatim>\<open>default\<close> case finds a chunk to receive. The timer case can happen whenever the
  poller is at its first \<^verbatim>\<open>select\<close>.
\<close>

fun step :: "StreamManager \<Rightarrow> string \<Rightarrow> 'p event \<Rightarrow> 'p sys \<Rightarrow> 'p sys option" where
  "step m streamID (PubLock chunk now) s =
     (case pub s of
        PubIdle \<Rightarrow>
          (case getStream m streamID of
             None \<Rightarrow> Some (s\<lparr>published := published s @ [False]\<rparr>)
           | Some a \<Rightarrow>
               (case streamObjs (store s) a of
                  None \<Rightarrow> Some (s\<lparr>published := published s @ [False]\<rparr>)
                | Some stream \<Rightarrow>
                    let (h, fullChunk) = publishLocked (store s) a stream chunk now
                    in Some (s\<lparr>store := h, pub := PubSending a fullChunk\<rparr>)))
      | _ \<Rightarrow> None)"
| "step m streamID PubSend s =
     (case pub s of
        PubSending a fullChunk \<Rightarrow>
          (case streamObjs (store s) a of
             None \<Rightarrow> None
           | Some stream \<Rightarrow>
               if length (queue stream) < queueCap
               then Some (s\<lparr>store := (store s)\<lparr>streamObjs :=
                                       (streamObjs (store s))(a \<mapsto> stream\<lparr>queue := queue stream @ [fullChunk]\<rparr>)\<rparr>,
                            pub := (if IsFinal fullChunk then PubMarking a else PubIdle),
                            published := (if IsFinal fullChunk then published s else published s @ [True])\<rparr>)
               else None)
      | _ \<Rightarrow> None)"
| "step m streamID (PubMark now) s =
     (case pub s of
        PubMarking a \<Rightarrow>
          Some (s\<lparr>store := setFinished (store s) a now, pub := PubIdle,
                  published := published s @ [True]\<rparr>)
      | _ \<Rightarrow> None)"
| "step m streamID (PollTouch now) s =
     (case poll s of
        PollIdle \<Rightarrow>
          (if streamID = [] then Some (s\<lparr>polled := polled s @ [None]\<rparr>)
           else
             (case getStream m streamID of
                None \<Rightarrow> Some (s\<lparr>polled := polled s @ [None]\<rparr>)
              | Some a \<Rightarrow> Some (s\<lparr>store := touch (store s) a now, poll := PollSelect a\<rparr>)))
      | _ \<Rightarrow> None)"
| "step m streamID PollRecv s =
     (case poll s of
        PollSelect a \<Rightarrow>
          (case streamObjs (store s) a of
             None \<Rightarrow> None
           | Some stream \<Rightarrow>
               (case queue stream of
                  [] \<Rightarrow> None
                | firstChunk # rest \<Rightarrow>
                    Some (s\<lparr>store := (store s)\<lparr>streamObjs :=
                                       (streamObjs (store s))(a \<mapsto> stream\<lparr>queue := rest\<rparr>)\<rparr>,
                            poll := PollDraining a firstChunk (IsFinal firstChunk)\<rparr>)))
      | PollDraining a latestChunk finalSeen \<Rightarrow>
          (case streamObjs (store s) a of
             None \<Rightarrow> None
           | Some stream \<Rightarrow>
               (case queue stream of
                  [] \<Rightarrow> None
                | nextChunk # rest \<Rightarrow>
                    Some (s\<lparr>store := (store s)\<lparr>streamObjs :=
                                       (streamObjs (store s))(a \<mapsto> stream\<lparr>queue := rest\<rparr>)\<rparr>,
                            poll := PollDraining a nextChunk (if IsFinal nextChunk then True else finalSeen)\<rparr>)))
      | _ \<Rightarrow> None)"
| "step m streamID PollDefault s =
     (case poll s of
        PollDraining a latestChunk finalSeen \<Rightarrow>
          (case streamObjs (store s) a of
             None \<Rightarrow> None
           | Some stream \<Rightarrow>
               if queue stream = []
               then Some (s\<lparr>poll := PollStoring a (if finalSeen then latestChunk\<lparr>IsFinal := True\<rparr>
                                                     else latestChunk)\<rparr>)
               else None)
      | _ \<Rightarrow> None)"
| "step m streamID (PollStore now) s =
     (case poll s of
        PollStoring a latestChunk \<Rightarrow>
          Some (s\<lparr>store := updStream (store s) a
                             (\<lambda>stream. stream\<lparr>LastAccess := now, LastChunk := Some latestChunk,
                                               Finished := (if IsFinal latestChunk then True
                                                            else Finished stream)\<rparr>),
                  poll := PollIdle,
                  polled := polled s @ [Some latestChunk]\<rparr>)
      | _ \<Rightarrow> None)"
| "step m streamID (PollTimeout now) s =
     (case poll s of
        PollSelect a \<Rightarrow>
          (case streamObjs (store s) a of
             None \<Rightarrow> None
           | Some stream \<Rightarrow>
               Some (s\<lparr>store := (store s)\<lparr>streamObjs :=
                                  (streamObjs (store s))(a \<mapsto> stream\<lparr>LastAccess := now\<rparr>)\<rparr>,
                       poll := PollIdle,
                       polled := polled s @ [if Finished stream \<and> LastChunk stream \<noteq> None
                                             then LastChunk stream else None]\<rparr>))
      | _ \<Rightarrow> None)"

text \<open>A run: the events of a schedule one after the other, as long as each can happen.\<close>

fun exec :: "StreamManager \<Rightarrow> string \<Rightarrow> 'p event list \<Rightarrow> 'p sys \<Rightarrow> 'p sys option" where
  "exec m streamID [] s = Some s"
| "exec m streamID (e # es) s =
     (case step m streamID e s of
        None \<Rightarrow> None
      | Some s' \<Rightarrow> exec m streamID es s')"

text \<open>
  A state in which the two calls do not overlap: one of the goroutines is outside its
  call. A run has no overlapping calls when every state it passes through is such.
\<close>

definition apart :: "'p sys \<Rightarrow> bool" where
  "apart s \<longleftrightarrow> pub s = PubIdle \<or> poll s = PollIdle"

fun noOverlap :: "StreamManager \<Rightarrow> string \<Rightarrow> 'p event list \<Rightarrow> 'p sys \<Rightarrow> bool" where
  "noOverlap m streamID [] s = apart s"
| "noOverlap m streamID (e # es) s =
     (apart s \<and>
      (case step m streamID e s of
         None \<Rightarrow> True
       | Some s' \<Rightarrow> noOverlap m streamID es s'))"

text \<open>The chunks that a schedule hands to \<^verbatim>\<open>publish\<close>, in order.\<close>

fun publishedChunks :: "'p event list \<Rightarrow> 'p Chunk list" where
  "publishedChunks [] = []"
| "publishedChunks (PubLock chunk now # es) = chunk # publishedChunks es"
| "publishedChunks (e # es) = publishedChunks es"

text \<open>
  The events of one call when nothing comes in between: a \<^verbatim>\<open>publish\<close> of \<open>chunk\<close>, and a
  \<^verbatim>\<open>getLatestChunk\<close> that finds \<open>n\<close> chunks in the queue.
\<close>

definition publishCall :: "'p Chunk \<Rightarrow> time \<Rightarrow> 'p event list" where
  "publishCall chunk now =
     [PubLock chunk now, PubSend] @ (if IsFinal chunk then [PubMark now] else [])"

definition pollCall :: "nat \<Rightarrow> time \<Rightarrow> 'p event list" where
  "pollCall n now =
     (if n = 0 then [PollTouch now, PollTimeout now]
      else PollTouch now # replicate n PollRecv @ [PollDefault, PollStore now])"

text \<open>The goroutine an event belongs to.\<close>

fun ofPublisher :: "'p event \<Rightarrow> bool" where
  "ofPublisher (PubLock chunk now) = True"
| "ofPublisher PubSend = True"
| "ofPublisher (PubMark now) = True"
| "ofPublisher e = False"

text \<open>
  A schedule for any list of chunks: each \<^verbatim>\<open>publish\<close> runs to its end and is followed
  by a \<^verbatim>\<open>getLatestChunk\<close>, which finds the one chunk just sent.
\<close>

fun rounds :: "('p Chunk \<times> time) list \<Rightarrow> 'p event list" where
  "rounds [] = []"
| "rounds ((chunk, now) # cs) = publishCall chunk now @ pollCall 1 now @ rounds cs"

section \<open>The cumulative text, in the words of the specification\<close>

text \<open>
  The content of the last chunk of a session, empty when there is none yet.
\<close>

definition lastContent :: "'p Stream \<Rightarrow> string" where
  "lastContent s = (case LastChunk s of None \<Rightarrow> [] | Some lc \<Rightarrow> Content lc)"

text \<open>The text that one publish makes of the text before it.\<close>

definition appendDelta :: "string \<Rightarrow> 'p Chunk \<Rightarrow> string" where
  "appendDelta prev chunk = (if Payload chunk = None then prev @ Content chunk else [])"




section \<open>The cumulative text during a run\<close>



section \<open>The refresh path of the dispatcher\<close>

text \<open>
  The value handed to \<^verbatim>\<open>EncryptResponse\<close> has type \<^verbatim>\<open>any\<close>: in \<^verbatim>\<open>refresh\<close> it is a
  \<^verbatim>\<open>StreamReply\<close> or the payload of a chunk.
\<close>

datatype 'p reply_value = StreamReplyValue StreamReply | PayloadValue 'p

text \<open>
  \<^verbatim>\<open>EncryptResponse\<close>. \<^verbatim>\<open>jsonMarshal\<close> is a package variable holding a function, so it
  is a parameter; it reads the store to follow the pointers of the value. The log
  output is not modelled.
\<close>

definition EncryptResponse ::
  "('p heap \<Rightarrow> 'p reply_value \<Rightarrow> unit + bytes) \<Rightarrow> aes \<Rightarrow> (bytes \<Rightarrow> bytes) \<Rightarrow> Crypt \<Rightarrow>
     bytes option \<Rightarrow> 'p heap \<Rightarrow> 'p reply_value \<Rightarrow> string \<Rightarrow> string \<Rightarrow> error + EncryptedResponse" where
  "EncryptResponse jsonMarshal A sha1 c rnd h payload timestamp nonce =
     (case jsonMarshal h payload of
        Inl _ \<Rightarrow> Inl MarshalError
      | Inr body \<Rightarrow>
          (case encrypt A c rnd body of
             Inl err \<Rightarrow> Inl err
           | Inr encrypted \<Rightarrow>
               let signature = CalcSignature sha1 (token c) timestamp nonce encrypted
               in Inr \<lparr>Resp_Encrypt = encrypted, Resp_MsgSignature = signature,
                       Resp_Timestamp = timestamp, Resp_Nonce = nonce\<rparr>))"

text \<open>
  \<^verbatim>\<open>(*Bot).refresh\<close>, on the bot's stream manager \<open>m\<close> and Crypt context \<open>c\<close>. The clock
  is read by \<^verbatim>\<open>getLatestChunk\<close> (\<open>now\<close>) and again, later, by \<^verbatim>\<open>markFinished\<close> (\<open>now'\<close>).
\<close>

definition refresh ::
  "('p heap \<Rightarrow> 'p reply_value \<Rightarrow> unit + bytes) \<Rightarrow> aes \<Rightarrow> (bytes \<Rightarrow> bytes) \<Rightarrow> Crypt \<Rightarrow>
     bytes option \<Rightarrow> StreamManager \<Rightarrow> 'p heap \<Rightarrow> Message \<Rightarrow> string \<Rightarrow> string \<Rightarrow> time \<Rightarrow> time \<Rightarrow>
     'p heap \<times> (error + EncryptedResponse)" where
  "refresh jsonMarshal A sha1 c rnd m h msg timestamp nonce now now' =
     (let streamID = (case Msg_Stream msg of None \<Rightarrow> [] | Some sp \<Rightarrow> SP_ID sp)
      in if streamID = []
         then
           let reply = BuildStreamReply [] [] True
           in (h, EncryptResponse jsonMarshal A sha1 c rnd h (StreamReplyValue reply) timestamp nonce)
         else
           (case getLatestChunk m h streamID now of
              (h1, None) \<Rightarrow>
                let reply = BuildStreamReply streamID [] False
                in (h1, EncryptResponse jsonMarshal A sha1 c rnd h1 (StreamReplyValue reply) timestamp nonce)
            | (h1, Some chunk) \<Rightarrow>
                let h2 = (if IsFinal chunk then markFinished m h1 streamID now' else h1)
                in (case Payload chunk of
                      Some p \<Rightarrow>
                        (h2, EncryptResponse jsonMarshal A sha1 c rnd h2 (PayloadValue p) timestamp nonce)
                    | None \<Rightarrow>
                        if IsFinal chunk \<and> sliceLen (MsgItems chunk) > 0
                        then
                          let (h3, reply) =
                                BuildStreamReplyWithMsgItems h2 streamID (Content chunk) True (MsgItems chunk)
                          in (h3, EncryptResponse jsonMarshal A sha1 c rnd h3 (StreamReplyValue reply) timestamp nonce)
                        else
                          let reply = BuildStreamReply streamID (Content chunk) (IsFinal chunk)
                          in (h2, EncryptResponse jsonMarshal A sha1 c rnd h2 (StreamReplyValue reply) timestamp nonce))))"


section \<open>Concrete instances\<close>

text \<open>
  A block cipher that can be run: XOR with the first 16 key bytes. It stands in for AES
  wherever a theorem is applied to concrete data; it is its own inverse.
\<close>

definition xorAes :: aes where
  "xorAes = \<lparr>encryptBlock = (\<lambda>key b. xorBytes b (take 16 key)),
             decryptBlock = (\<lambda>key b. xorBytes b (take 16 key))\<rparr>"

text \<open>
  An encoding key of 43 characters, as the platform issues them, and the context
  \<^const>\<open>NewCrypt\<close> builds from it: the key bytes are \<open>0123456789abcdef0123456789abcdef\<close>.
\<close>

definition testEncodingKey :: string where
  "testEncodingKey = ''MDEyMzQ1Njc4OWFiY2RlZjAxMjM0NTY3ODlhYmNkZWY''"

definition testCrypt :: Crypt where
  "testCrypt = \<lparr>token = ''token'', aesKey = ''0123456789abcdef0123456789abcdef'', corpID = ''corpID''\<rparr>"

definition testRandom :: bytes where
  "testRandom = ''0123456789abcdef''"

text \<open>Two plaintexts of 4 GiB and of 4 GiB - 4 bytes.\<close>

definition plain4G :: bytes where
  "plain4G = replicate 4294967296 (CHR 0x00)"

definition plain4Gm4 :: bytes where
  "plain4Gm4 = replicate 4294967292 (CHR 0x00)"

text \<open>A hash function that can be run, standing in for SHA-1: the first 20 bytes.\<close>

definition take20 :: "bytes \<Rightarrow> bytes" where
  "take20 s = take 20 s"

text \<open>Sixteen random bytes whose Base64 form contains \<open>+\<close>.\<close>

definition plusRandom :: bytes where
  "plusRandom = ''01~3456789abcdef''"

text \<open>
  A store with one image payload (address 0) and one backing array (address 1) that
  holds a single image item, and the slice over that array: the items of the
  package's test \<^verbatim>\<open>TestBuildStreamReplyWithMsgItems_MsgItemOnlyOnFinish\<close>.
\<close>

definition testImageItem :: MixedItem where
  "testImageItem = \<lparr>Item_MsgType = ''image'', Item_Text = None, Item_Image = Some 0\<rparr>"

definition testHeap :: "'p heap" where
  "testHeap =
     \<lparr>textObjs = Map.empty,
      imageObjs = [0 \<mapsto> \<lparr>URL = '''', Base64 = ''BASE64'', MD5 = ''MD5''\<rparr>],
      itemArrays = [1 \<mapsto> [testImageItem]],
      streamObjs = Map.empty,
      nextAddr = 2\<rparr>"

definition testItems :: items where
  "testItems = Some \<lparr>arr = 1, off = 0, len = 1\<rparr>"

definition testTextItem :: MixedItem where
  "testTextItem = \<lparr>Item_MsgType = ''text'', Item_Text = None, Item_Image = None\<rparr>"

text \<open>
  A stream manager with one session, \<open>s1\<close>, opened by message \<open>M1\<close>; the session's
  struct lives at address 5. \<open>testStream q lc fin\<close> is the session with queue \<open>q\<close>,
  last chunk \<open>lc\<close> and finished flag \<open>fin\<close>.
\<close>

definition testMessage :: Message where
  "testMessage =
     \<lparr>Msg_MsgID = ''M1'', Msg_CreateTime = 0, Msg_AIBotID = ''bot'', Msg_ChatID = ''chat'',
      Msg_ChatType = ''single'', Msg_From = \<lparr>Sender_UserID = ''user'', Sender_CorpID = []\<rparr>,
      Msg_ResponseURL = [], Msg_MsgType = ''text'', Msg_Stream = None\<rparr>"

definition testManager :: StreamManager where
  "testManager =
     \<lparr>streams = [''s1'' \<mapsto> 5], msgIndex = [''M1'' \<mapsto> ''s1''], ttl = 60000000000, timeout = 500000000\<rparr>"

definition testStream :: "'p Chunk list \<Rightarrow> 'p Chunk option \<Rightarrow> bool \<Rightarrow> 'p Stream" where
  "testStream q lc fin =
     \<lparr>StreamID = ''s1'', MsgID = ''M1'', ChatID = ''chat'', UserID = ''user'', ResponseURL = [],
      CreatedAt = 0, LastAccess = 0, Finished = fin, queue = q, LastChunk = lc,
      Message = testMessage\<rparr>"

definition streamHeap :: "'p Stream \<Rightarrow> 'p heap" where
  "streamHeap s =
     \<lparr>textObjs = Map.empty, imageObjs = Map.empty, itemArrays = Map.empty,
      streamObjs = [5 \<mapsto> s], nextAddr = 6\<rparr>"

text \<open>The session \<open>s1\<close> with a publisher and a poller, both outside their calls.\<close>

definition testSys :: "'p Stream \<Rightarrow> 'p sys" where
  "testSys stream =
     \<lparr>store = streamHeap stream, pub = PubIdle, poll = PollIdle, published = [], polled = []\<rparr>"

definition textChunk :: "string \<Rightarrow> bool \<Rightarrow> 'p Chunk" where
  "textChunk content final = \<lparr>Content = content, MsgItems = None, Payload = None, IsFinal = final\<rparr>"

definition payloadChunk :: "'p \<Rightarrow> 'p Chunk" where
  "payloadChunk p = \<lparr>Content = [], MsgItems = None, Payload = Some p, IsFinal = False\<rparr>"



definition overtakenRun :: "string event list" where
  "overtakenRun =
     [PubLock (textChunk ''a'' False) 1, PubSend,
      PollTouch 2, PollRecv, PollDefault,
      PubLock (textChunk ''b'' False) 3, PubSend,
      PollStore 4,
      PubLock (textChunk ''c'' False) 5, PubSend]"




text \<open>
  A refresh request for stream \<open>sid\<close>; a marshalling function that can be run, which
  writes a payload as it is and a stream reply with its fields in order, the
  \<open>msg_item\<close> key only for a non-empty list; and \<^const>\<open>refresh\<close> on the test manager
  with fixed cipher, hash, context, random bytes, timestamp, nonce and clock readings
  9 and 10.
\<close>

definition refreshMsg :: "string \<Rightarrow> Message" where
  "refreshMsg sid =
     testMessage\<lparr>Msg_MsgType := ''stream'',
                 Msg_Stream := Some \<lparr>SP_ID = sid, SP_Finish = False, SP_Content = [], SP_MsgItem = None\<rparr>\<rparr>"

definition showBool :: "bool \<Rightarrow> string" where
  "showBool b = (if b then ''true'' else ''false'')"

definition showItem :: "string \<times> TextPayload option \<times> ImagePayload option \<Rightarrow> string" where
  "showItem v =
     (case v of
        (t, txt, img) \<Rightarrow>
          ''{msgtype:'' @ t @
          (case txt of None \<Rightarrow> [] | Some p \<Rightarrow> '',text:{content:'' @ Text_Content p @ ''}'') @
          (case img of None \<Rightarrow> [] | Some p \<Rightarrow> '',image:{base64:'' @ Base64 p @ '',md5:'' @ MD5 p @ ''}'') @
          ''}'')"

definition testMarshal :: "string heap \<Rightarrow> string reply_value \<Rightarrow> unit + bytes" where
  "testMarshal h v =
     (case v of
        PayloadValue p \<Rightarrow> Inr p
      | StreamReplyValue reply \<Rightarrow>
          Inr (''{msgtype:'' @ Reply_MsgType reply @
               '',stream:{id:'' @ Body_ID (Reply_Stream reply) @
               '',finish:'' @ showBool (Body_Finish (Reply_Stream reply)) @
               '',content:'' @ Body_Content (Reply_Stream reply) @
               (if hasMsgItemKey reply
                then '',msg_item:['' @ concat (map showItem (replyItems h reply)) @ '']''
                else []) @
               ''}}''))"

definition testRefresh :: "string heap \<Rightarrow> Message \<Rightarrow> string heap \<times> (error + EncryptedResponse)" where
  "testRefresh h msg =
     refresh testMarshal xorAes take20 testCrypt (Some testRandom) testManager h msg
       ''1700000000'' ''nonce'' 9 10"

text \<open>
  What the receiver of a reply reads: the \<^verbatim>\<open>encrypt\<close> field of the response, decrypted,
  and the finished flag and last access time of session \<open>s1\<close> in a store.
\<close>

definition replyBody :: "error + EncryptedResponse \<Rightarrow> error + bytes" where
  "replyBody r = (case r of Inl e \<Rightarrow> Inl e | Inr resp \<Rightarrow> decrypt xorAes testCrypt (Resp_Encrypt resp))"

definition sessionState :: "string heap \<Rightarrow> (bool \<times> time) option" where
  "sessionState h = map_option (\<lambda>s. (Finished s, LastAccess s)) (streamObjs h 5)"

text \<open>The store of \<^const>\<open>testHeap\<close> with the session struct at address 5 added.\<close>

definition itemsStreamHeap :: "string Stream \<Rightarrow> string heap" where
  "itemsStreamHeap s = testHeap\<lparr>streamObjs := [5 \<mapsto> s], nextAddr := 6\<rparr>"

definition itemsChunk :: "string Chunk" where
  "itemsChunk = \<lparr>Content = ''Hello!'', MsgItems = testItems, Payload = None, IsFinal = True\<rparr>"


section \<open>Key decoding\<close>

declare spec_pad_key.simps [simp del]

lemma spec_pad_key_eq:
  "spec_pad_key s = s @ replicate ((4 - length s mod 4) mod 4) (CHR ''='')"
proof (induction s rule: spec_pad_key.induct)
  case (1 s)
  show ?case
  proof (cases "length s mod 4 = 0")
    case True
    then show ?thesis by (simp add: spec_pad_key.simps [of s])
  next
    case False
    have m: "length s mod 4 = 1 \<or> length s mod 4 = 2 \<or> length s mod 4 = 3"
      using False by presburger
    have step: "spec_pad_key s = spec_pad_key (s @ [CHR ''=''])"
      using False by (simp add: spec_pad_key.simps [of s])
    have "(4 - length s mod 4) mod 4 = Suc ((4 - Suc (length s) mod 4) mod 4)"
      using m by (auto simp: mod_Suc)
    then show ?thesis
      using 1 [OF False] step by (simp add: replicate_app_Cons_same)
  qed
qed

lemma b64_decode_empty: "b64_decode [] = Inr []"
  by (simp add: b64_decode_def)


section \<open>Base64: decoding undoes encoding\<close>

lemma decodeMap_encodeChar_all:
  "list_all (\<lambda>n. decodeMap (encodeChar n) = Some n) [0..<64]"
  by code_simp

lemma decodeMap_encodeChar: "n < 64 \<Longrightarrow> decodeMap (encodeChar n) = Some n"
  using decodeMap_encodeChar_all by (simp add: list_all_iff)

lemma decodeMap_pad: "decodeMap (CHR ''='') = None"
  by code_simp

lemma isNewline_pad: "\<not> isNewline (CHR ''='')"
  by (simp add: isNewline_def)

lemma decodeLoop_quantum:
  assumes "decodeMap c0 = Some s0" "decodeMap c1 = Some s1"
    "decodeMap c2 = Some s2" "decodeMap c3 = Some s3"
  shows "decodeLoop [] (c0 # c1 # c2 # c3 # rest) =
           (case decodeLoop [] rest of
              Inl e \<Rightarrow> Inl e
            | Inr r \<Rightarrow> Inr (quantumBytes [s0, s1, s2, s3] @ r))"
  using assms by (simp split: sum.splits)

lemma decodeLoop_pad1:
  assumes "decodeMap c0 = Some s0" "decodeMap c1 = Some s1" "decodeMap c2 = Some s2"
  shows "decodeLoop [] [c0, c1, c2, CHR ''=''] = Inr (quantumBytes [s0, s1, s2])"
  using assms by (simp add: decodeMap_pad isNewline_pad)

lemma decodeLoop_pad2:
  assumes "decodeMap c0 = Some s0" "decodeMap c1 = Some s1"
  shows "decodeLoop [] [c0, c1, CHR ''='', CHR ''=''] = Inr (quantumBytes [s0, s1])"
  using assms by (simp add: decodeMap_pad isNewline_pad)

lemma of_char_lt: "(of_char c :: nat) < 256"
proof -
  have "(of_char c :: nat) = of_char c mod 256" by (simp only: of_char_mod_256)
  also have "\<dots> < 256" by (rule mod_less_divisor) simp
  finally show ?thesis .
qed

lemma char_of_eqI: "n mod 256 = (of_char x :: nat) \<Longrightarrow> char_of n = x"
  by (metis char_of_char char_of_mod_256)

lemma sextets_sum:
  fixes v :: nat
  assumes "v < 16777216"
  shows "v div 262144 mod 64 * 262144 + v div 4096 mod 64 * 4096 + v div 64 mod 64 * 64 + v mod 64 = v"
proof -
  define q1 where "q1 = v div 64"
  define q2 where "q2 = q1 div 64"
  define q3 where "q3 = q2 div 64"
  have e1: "v div 4096 = q2" by (simp add: q1_def q2_def div_mult2_eq [symmetric])
  have e2: "v div 262144 = q3" by (simp add: q1_def q2_def q3_def div_mult2_eq [symmetric])
  have "q3 < 64" using assms unfolding e2 [symmetric] by (simp add: less_mult_imp_div_less)
  then have m3: "q3 mod 64 = q3" by simp
  have f1: "v = 64 * q1 + v mod 64" by (simp add: q1_def)
  have f2: "q1 = 64 * q2 + q1 mod 64" by (simp add: q2_def)
  have f3: "q2 = 64 * q3 + q2 mod 64" by (simp add: q3_def)
  have "q3 * 262144 + (q2 mod 64) * 4096 + (q1 mod 64) * 64 + v mod 64 =
        64 * (64 * (64 * q3 + q2 mod 64) + q1 mod 64) + v mod 64" by simp
  also have "\<dots> = v" using f1 f2 f3 by simp
  finally show ?thesis by (simp add: e1 e2 m3 q1_def [symmetric])
qed

lemma val_split:
  fixes x y z :: nat
  assumes "y < 256" "z < 256"
  shows "(x * 65536 + y * 256 + z) div 65536 = x"
    and "(x * 65536 + y * 256 + z) div 256 mod 256 = y"
    and "(x * 65536 + y * 256 + z) mod 256 = z"
proof -
  let ?v = "x * 65536 + y * 256 + z"
  have "?v = (y * 256 + z) + x * 65536" by simp
  then have "?v div 65536 = (y * 256 + z) div 65536 + x" by (simp only: div_mult_self1)
  moreover have "y * 256 + z < 65536" using assms by linarith
  ultimately show "?v div 65536 = x" by simp
  have vz: "?v = z + (x * 256 + y) * 256" by simp
  then have "?v div 256 = z div 256 + (x * 256 + y)" by (simp only: div_mult_self1)
  then have d: "?v div 256 = x * 256 + y" using assms by simp
  show "?v div 256 mod 256 = y" unfolding d using assms by simp
  have "?v mod 256 = z mod 256" unfolding vz by (simp only: mod_mult_self1)
  then show "?v mod 256 = z" using assms by simp
qed

lemma bytes_of_val:
  fixes a b c :: char
  defines "v \<equiv> (of_char a :: nat) * 65536 + of_char b * 256 + of_char c"
  shows "char_of (v div 65536) = a" "char_of (v div 256) = b" "char_of v = c"
proof -
  have lb: "(of_char b :: nat) < 256" and lc: "(of_char c :: nat) < 256"
    by (rule of_char_lt)+
  show "char_of (v div 65536) = a"
    unfolding v_def val_split(1) [OF lb lc] by simp
  show "char_of (v div 256) = b"
    by (rule char_of_eqI) (simp only: v_def val_split(2) [OF lb lc])
  show "char_of v = c"
    by (rule char_of_eqI) (simp only: v_def val_split(3) [OF lb lc])
qed

lemma val_lt:
  "(of_char a :: nat) * 65536 + of_char b * 256 + of_char c < 16777216"
proof -
  have "(of_char a :: nat) < 256" "(of_char b :: nat) < 256" "(of_char c :: nat) < 256"
    by (rule of_char_lt)+
  then show ?thesis by linarith
qed


lemma sextet_lt: "(n::nat) mod 64 < 64"
  by simp

lemma quantumBytes_full:
  "s0 * 262144 + s1 * 4096 + s2 * 64 + s3 = V \<Longrightarrow>
   quantumBytes [s0, s1, s2, s3] = [char_of (V div 65536), char_of (V div 256), char_of V]"
  by (simp add: quantumBytes_def)

lemma quantumBytes_pad1:
  "s0 * 262144 + s1 * 4096 + s2 * 64 = V \<Longrightarrow>
   quantumBytes [s0, s1, s2] = [char_of (V div 65536), char_of (V div 256)]"
  by (simp add: quantumBytes_def)

lemma quantumBytes_pad2:
  "s0 * 262144 + s1 * 4096 = V \<Longrightarrow> quantumBytes [s0, s1] = [char_of (V div 65536)]"
  by (simp add: quantumBytes_def)

lemma quantumBytes4:
  fixes a b c :: char
  defines "v \<equiv> (of_char a :: nat) * 65536 + of_char b * 256 + of_char c"
  shows "quantumBytes [v div 262144 mod 64, v div 4096 mod 64, v div 64 mod 64, v mod 64] = [a, b, c]"
proof -
  have "v < 16777216" unfolding v_def by (rule val_lt)
  then have "v div 262144 mod 64 * 262144 + v div 4096 mod 64 * 4096 + v div 64 mod 64 * 64 + v mod 64 = v"
    by (rule sextets_sum)
  then have "quantumBytes [v div 262144 mod 64, v div 4096 mod 64, v div 64 mod 64, v mod 64] =
      [char_of (v div 65536), char_of (v div 256), char_of v]"
    by (rule quantumBytes_full)
  also have "\<dots> = [a, b, c]"
    unfolding v_def by (simp only: bytes_of_val)
  finally show ?thesis .
qed

lemma quantumBytes3:
  fixes a b :: char
  defines "v \<equiv> (of_char a :: nat) * 65536 + of_char b * 256"
  shows "quantumBytes [v div 262144 mod 64, v div 4096 mod 64, v div 64 mod 64] = [a, b]"
proof -
  have v: "v = of_char a * 65536 + of_char b * 256 + of_char (CHR 0x00)" by (simp add: v_def)
  have "v < 16777216" unfolding v by (rule val_lt)
  then have s: "v div 262144 mod 64 * 262144 + v div 4096 mod 64 * 4096 + v div 64 mod 64 * 64 + v mod 64 = v"
    by (rule sextets_sum)
  have "v = (of_char a * 1024 + of_char b * 4) * 64" by (simp add: v_def)
  then have m: "v mod 64 = 0" by (simp only: mod_mult_self2_is_0)
  from s have "v div 262144 mod 64 * 262144 + v div 4096 mod 64 * 4096 + v div 64 mod 64 * 64 = v"
    unfolding m by (simp only: add_0_right)
  then have "quantumBytes [v div 262144 mod 64, v div 4096 mod 64, v div 64 mod 64] =
      [char_of (v div 65536), char_of (v div 256)]"
    by (rule quantumBytes_pad1)
  also have "\<dots> = [a, b]"
    unfolding v by (simp only: bytes_of_val)
  finally show ?thesis .
qed

lemma quantumBytes2:
  fixes a :: char
  defines "v \<equiv> (of_char a :: nat) * 65536"
  shows "quantumBytes [v div 262144 mod 64, v div 4096 mod 64] = [a]"
proof -
  have v: "v = of_char a * 65536 + of_char (CHR 0x00) * 256 + of_char (CHR 0x00)" by (simp add: v_def)
  have "v < 16777216" unfolding v by (rule val_lt)
  then have s: "v div 262144 mod 64 * 262144 + v div 4096 mod 64 * 4096 + v div 64 mod 64 * 64 + v mod 64 = v"
    by (rule sextets_sum)
  have v64: "v = (of_char a * 1024) * 64" by (simp add: v_def)
  then have m: "v mod 64 = 0" by (simp only: mod_mult_self2_is_0)
  have "v div 64 = (of_char a * 16) * 64" unfolding v64 by simp
  then have m2: "v div 64 mod 64 = 0" by (simp only: mod_mult_self2_is_0)
  from s have "v div 262144 mod 64 * 262144 + v div 4096 mod 64 * 4096 = v"
    unfolding m m2 by (simp only: add_0_right mult_0)
  then have "quantumBytes [v div 262144 mod 64, v div 4096 mod 64] = [char_of (v div 65536)]"
    by (rule quantumBytes_pad2)
  also have "\<dots> = [a]"
    unfolding v by (simp only: bytes_of_val)
  finally show ?thesis .
qed

lemma b64_decode_encode: "b64_decode (b64_encode bs) = Inr bs"
  unfolding b64_decode_def
proof (induction bs rule: b64_encode.induct)
  case (1 a b c rest)
  show ?case
    by (simp only: b64_encode.simps Let_def
          decodeLoop_quantum [OF decodeMap_encodeChar [OF sextet_lt] decodeMap_encodeChar [OF sextet_lt]
            decodeMap_encodeChar [OF sextet_lt] decodeMap_encodeChar [OF sextet_lt]]
          quantumBytes4 "1.IH") simp
next
  case (2 a b)
  show ?case
    by (simp only: b64_encode.simps Let_def
          decodeLoop_pad1 [OF decodeMap_encodeChar [OF sextet_lt] decodeMap_encodeChar [OF sextet_lt]
            decodeMap_encodeChar [OF sextet_lt]] quantumBytes3)
next
  case (3 a)
  show ?case
    by (simp only: b64_encode.simps Let_def
          decodeLoop_pad2 [OF decodeMap_encodeChar [OF sextet_lt] decodeMap_encodeChar [OF sextet_lt]]
          quantumBytes2)
next
  case 4
  show ?case by simp
qed

section \<open>CBC mode, PKCS#7 padding and the length field are invertible\<close>

lemma xorByte_cancel: "xorByte (xorByte a b) b = a"
  by (cases a; cases b) auto

lemma xorBytes_cancel: "length x = length y \<Longrightarrow> xorBytes (xorBytes x y) y = x"
proof (induction x arbitrary: y)
  case Nil
  then show ?case by (simp add: xorBytes_def)
next
  case (Cons a x)
  then obtain b y' where y: "y = b # y'" by (cases y) auto
  with Cons show ?case by (simp add: xorBytes_def xorByte_cancel)
qed

lemma length_xorBytes: "length (xorBytes x y) = min (length x) (length y)"
  by (simp add: xorBytes_def)

declare cbcEncrypt.simps [simp del] cbcDecrypt.simps [simp del]

lemma cbcEncrypt_Nil: "cbcEncrypt E iv [] = []"
  by (simp add: cbcEncrypt.simps [of E iv "[]"])

lemma cbcEncrypt_step:
  "src \<noteq> [] \<Longrightarrow>
   cbcEncrypt E iv src =
     E (xorBytes (take 16 src) iv) @ cbcEncrypt E (E (xorBytes (take 16 src) iv)) (drop 16 src)"
  by (simp add: cbcEncrypt.simps [of E iv src] Let_def)

lemma cbcDecrypt_Nil: "cbcDecrypt D iv [] = []"
  by (simp add: cbcDecrypt.simps [of D iv "[]"])

lemma cbcDecrypt_step:
  "src \<noteq> [] \<Longrightarrow>
   cbcDecrypt D iv src = xorBytes (D (take 16 src)) iv @ cbcDecrypt D (take 16 src) (drop 16 src)"
  by (simp add: cbcDecrypt.simps [of D iv src] Let_def)

lemma cbc_roundtrip:
  assumes inv: "\<And>b. length b = 16 \<Longrightarrow> length (E b) = 16 \<and> D (E b) = b"
  shows "length iv = 16 \<Longrightarrow> 16 dvd length src \<Longrightarrow>
         cbcDecrypt D iv (cbcEncrypt E iv src) = src \<and> length (cbcEncrypt E iv src) = length src"
proof (induction src arbitrary: iv rule: length_induct)
  case (1 src)
  show ?case
  proof (cases "src = []")
    case True
    then show ?thesis by (simp add: cbcEncrypt_Nil cbcDecrypt_Nil)
  next
    case False
    with "1.prems" have len: "16 \<le> length src" by (auto dest: dvd_imp_le)
    let ?p = "take 16 src"
    let ?c = "E (xorBytes ?p iv)"
    let ?rest = "cbcEncrypt E ?c (drop 16 src)"
    have x: "length (xorBytes ?p iv) = 16"
      using "1.prems" len by (simp add: length_xorBytes)
    then have c16: "length ?c = 16" and dc: "D ?c = xorBytes ?p iv" using inv by auto
    have d: "16 dvd length (drop 16 src)" using "1.prems" len by (simp add: dvd_diff_nat)
    have shorter: "length (drop 16 src) < length src" using len by simp
    from "1.IH" shorter c16 d
    have ih: "cbcDecrypt D ?c ?rest = drop 16 src" "length ?rest = length (drop 16 src)"
      by blast+
    have enc: "cbcEncrypt E iv src = ?c @ ?rest" using False by (rule cbcEncrypt_step)
    have ne: "?c @ ?rest \<noteq> []" using c16 by auto
    have tk: "take 16 (?c @ ?rest) = ?c" and dr: "drop 16 (?c @ ?rest) = ?rest"
      using c16 by simp_all
    have "cbcDecrypt D iv (?c @ ?rest) = xorBytes (D ?c) iv @ cbcDecrypt D ?c ?rest"
      using cbcDecrypt_step [OF ne, of D iv] by (simp only: tk dr)
    also have "\<dots> = xorBytes (xorBytes ?p iv) iv @ drop 16 src" by (simp only: dc ih)
    also have "\<dots> = ?p @ drop 16 src"
      using "1.prems" len by (simp add: xorBytes_cancel)
    finally have "cbcDecrypt D iv (?c @ ?rest) = src" by simp
    moreover have "length (?c @ ?rest) = length src" using c16 ih(2) len by simp
    ultimately show ?thesis by (simp only: enc)
  qed
qed

lemma pkcs7_padLen:
  "0 < 32 - n mod 32" "32 - (n::nat) mod 32 \<le> 32" "(n + (32 - n mod 32)) mod 32 = 0"
    by presburger+

lemma pkcs7Unpad_ok:
  assumes "length d \<noteq> 0" "length d mod bs = 0"
    and "(of_char (d ! (length d - 1)) :: nat) = k" "0 < k" "k \<le> bs"
    and "list_all (\<lambda>i. d ! (length d - 1 - i) = char_of k) [0..<k]"
  shows "pkcs7Unpad d bs = Inr (take (length d - k) d)"
  unfolding pkcs7Unpad_def using assms by (simp add: Let_def)

lemma pkcs7Unpad_pkcs7Pad: "pkcs7Unpad (pkcs7Pad data 32) 32 = Inr data"
proof -
  define padLen where "padLen = 32 - length data mod 32"
  define d where "d = data @ replicate padLen (char_of padLen :: char)"
  have p: "0 < padLen" "padLen \<le> 32" "(length data + padLen) mod 32 = 0"
    unfolding padLen_def by (rule pkcs7_padLen)+
  have pad: "pkcs7Pad data 32 = d"
    by (simp add: pkcs7Pad_def bytesRepeat_def padLen_def d_def Let_def)
  have len: "length d = length data + padLen" by (simp add: d_def)
  have oc: "(of_char (char_of padLen :: char) :: nat) = padLen"
    using p by (simp add: of_char_of)
  have idx: "d ! (length d - 1 - i) = char_of padLen" if i: "i < padLen" for i
  proof -
    from i have "length d - 1 - i = length data + (padLen - 1 - i)" by (simp add: len)
    then have "d ! (length d - 1 - i) = replicate padLen (char_of padLen :: char) ! (padLen - 1 - i)"
      unfolding d_def by (simp only: nth_append_length_plus)
    then show ?thesis using i by simp
  qed
  have lastb: "(of_char (d ! (length d - 1)) :: nat) = padLen"
    using idx [of 0] p oc by simp
  have all: "list_all (\<lambda>i. d ! (length d - 1 - i) = char_of padLen) [0..<padLen]"
    using idx by (simp add: list_all_iff)
  have "pkcs7Unpad d 32 = Inr (take (length d - padLen) d)"
    by (rule pkcs7Unpad_ok [OF _ _ lastb p(1) p(2) all]) (use p len in simp_all)
  then show ?thesis unfolding pad by (simp add: len d_def)
qed

lemma length_pkcs7Pad: "32 dvd length (pkcs7Pad data 32)"
  using pkcs7_padLen(3) [of "length data"]
  by (simp add: pkcs7Pad_def bytesRepeat_def Let_def dvd_eq_mod_eq_0)

lemma uint32BE_putUint32:
  assumes "v < 4294967296"
  shows "uint32BE (putUint32 v) = v"
proof -
  define q1 where "q1 = v div 256"
  define q2 where "q2 = q1 div 256"
  define q3 where "q3 = q2 div 256"
  have e2: "v div 65536 = q2" by (simp add: q1_def q2_def div_mult2_eq [symmetric])
  have e3: "v div 16777216 = q3" by (simp add: q1_def q2_def q3_def div_mult2_eq [symmetric])
  have "q3 < 256" using assms unfolding e3 [symmetric] by (simp add: less_mult_imp_div_less)
  then have m3: "q3 mod 256 = q3" by simp
  have f1: "v = 256 * q1 + v mod 256" by (simp add: q1_def)
  have f2: "q1 = 256 * q2 + q1 mod 256" by (simp add: q2_def)
  have f3: "q2 = 256 * q3 + q2 mod 256" by (simp add: q3_def)
  have "uint32BE (putUint32 v) = q3 mod 256 * 16777216 + q2 mod 256 * 65536 + q1 mod 256 * 256 + v mod 256"
    by (simp add: uint32BE_def putUint32_def of_char_of e2 e3 q1_def [symmetric])
  also have "\<dots> = 256 * (256 * (256 * q3 + q2 mod 256) + q1 mod 256) + v mod 256"
    by (simp add: m3)
  also have "\<dots> = v" using f1 f2 f3 by simp
  finally show ?thesis .
qed

section \<open>Decrypting an encrypted envelope\<close>

lemma length_putUint32: "length (putUint32 v) = 4"
  by (simp add: putUint32_def)

lemma aes_inverseD:
  "aes_inverse A \<Longrightarrow> length key = 32 \<Longrightarrow> length b = 16 \<Longrightarrow>
   length (encryptBlock A key b) = 16 \<and> decryptBlock A key (encryptBlock A key b) = b"
  by (simp add: aes_inverse_def)

text \<open>What decrypt makes of the envelope around an arbitrary buffer.\<close>

lemma decrypt_envelope:
  assumes A: "aes_inverse A" and key: "length (aesKey c) = 32"
  shows "decrypt A c (b64_encode (cbcEncrypt (encryptBlock A (aesKey c)) (take 16 (aesKey c)) (pkcs7Pad buf 32))) =
     (if length buf < 20 then Inl PlaintextTooShort
      else
        let content = drop 16 buf;
            msgLen = uint32BE (take 4 content)
        in if msgLen > length (drop 4 content) then Inl InvalidMessageLength
           else
             let high = (4 + msgLen) mod 4294967296
             in if 4 \<le> high \<and> high \<le> length content
                then Inr (take (high - 4) (drop 4 content))
                else Inl SliceBoundsPanic)"
proof -
  let ?E = "encryptBlock A (aesKey c)" and ?D = "decryptBlock A (aesKey c)"
  let ?iv = "take 16 (aesKey c)"
  let ?padded = "pkcs7Pad buf 32"
  let ?cd = "cbcEncrypt ?E ?iv ?padded"
  have iv: "length ?iv = 16" using key by simp
  have dv: "16 dvd length ?padded"
  proof -
    have "(16::nat) dvd 32" by simp
    then show ?thesis using length_pkcs7Pad [of buf] by (rule dvd_trans)
  qed
  have inv: "\<And>b. length b = 16 \<Longrightarrow> length (?E b) = 16 \<and> ?D (?E b) = b"
    using aes_inverseD [OF A key] by blast
  from cbc_roundtrip [of ?E ?D, OF inv iv dv]
  have rt: "cbcDecrypt ?D ?iv ?cd = ?padded" and len: "length ?cd = length ?padded" by simp_all
  have m16: "length ?cd mod 16 = 0" using dv len by (simp add: dvd_eq_mod_eq_0)
  have nc: "aesNewCipher (aesKey c) = Inr (aesKey c)" using key by (simp add: aesNewCipher_def)
  show ?thesis
    unfolding decrypt_def
    by (simp only: b64_decode_encode nc sum.case m16 aesBlockSize_def padBlockSize_def
          Let_def rt pkcs7Unpad_pkcs7Pad) simp
qed

section \<open>Encrypt, then decrypt\<close>

lemma encrypt_eq:
  assumes key: "length (aesKey c) = 32"
  shows "encrypt A c (Some r) P =
     Inr (b64_encode (cbcEncrypt (encryptBlock A (aesKey c)) (take 16 (aesKey c))
            (pkcs7Pad (r @ putUint32 (length P mod 4294967296) @ P @ corpID c) 32)))"
  using key by (simp add: encrypt_def aesNewCipher_def Let_def aesBlockSize_def padBlockSize_def)

lemma decrypt_encrypt:
  assumes A: "aes_inverse A" and key: "length (aesKey c) = 32" and r: "length r = 16"
  shows "(case encrypt A c (Some r) P of Inl e \<Rightarrow> Inl e | Inr s \<Rightarrow> decrypt A c s) =
     (if length P mod 4294967296 < 4294967292
      then Inr (take (length P mod 4294967296) P)
      else Inl SliceBoundsPanic)"
proof -
  define m where "m = length P mod 4294967296"
  define buf where "buf = r @ putUint32 m @ P @ corpID c"
  have mlt: "m < 4294967296" by (simp add: m_def)
  have mle: "m \<le> length P" by (simp add: m_def)
  have content: "drop 16 buf = putUint32 m @ P @ corpID c" using r by (simp add: buf_def)
  have t4: "take 4 (drop 16 buf) = putUint32 m" unfolding content by (simp add: putUint32_def)
  have d4: "drop 4 (drop 16 buf) = P @ corpID c"
    unfolding content by (simp add: length_putUint32)
  have ml: "uint32BE (take 4 (drop 16 buf)) = m" unfolding t4 using mlt by (rule uint32BE_putUint32)
  have lb: "\<not> length buf < 20" using r by (simp add: buf_def length_putUint32)
  have lc: "length (drop 16 buf) = 4 + length P + length (corpID c)"
    unfolding content by (simp add: length_putUint32)
  have le: "\<not> length (P @ corpID c) < m" using mle by simp
  have env: "decrypt A c (b64_encode (cbcEncrypt (encryptBlock A (aesKey c)) (take 16 (aesKey c)) (pkcs7Pad buf 32))) =
      (let high = (4 + m) mod 4294967296
       in if 4 \<le> high \<and> high \<le> length (drop 16 buf)
          then Inr (take (high - 4) (P @ corpID c)) else Inl SliceBoundsPanic)"
    by (simp only: decrypt_envelope [OF A key] lb if_False Let_def ml le d4)
  show ?thesis
  proof (cases "m < 4294967292")
    case True
    then have h: "(4 + m) mod 4294967296 = 4 + m" by simp
    have "take m (P @ corpID c) = take m P" using mle by simp
    then show ?thesis
      using True mle unfolding encrypt_eq [OF key] sum.case m_def [symmetric] buf_def [symmetric] env Let_def h lc
      by simp
  next
    case False
    then have "4 + m = 4294967296 + (m - 4294967292)" by simp
    then have "(4 + m) mod 4294967296 = (m - 4294967292) mod 4294967296"
      by (simp only: mod_add_self1)
    also have "\<dots> = m - 4294967292" using mlt by simp
    finally have h: "(4 + m) mod 4294967296 = m - 4294967292" .
    have "\<not> 4 \<le> m - 4294967292" using mlt by simp
    then show ?thesis
      using False unfolding encrypt_eq [OF key] sum.case m_def [symmetric] buf_def [symmetric] env Let_def h
      by simp
  qed
qed

lemma aes_inverse_xorAes: "aes_inverse xorAes"
  by (auto simp: aes_inverse_def xorAes_def length_xorBytes xorBytes_cancel)

lemma NewCrypt_aesKey: "NewCrypt tok k corp = Inr c \<Longrightarrow> length (aesKey c) = 32"
  by (auto simp: NewCrypt_def decodeAESKey_def Let_def split: sum.splits if_splits)

lemma enc_test: "b64_encode ''0123456789abcdef0123456789abcdef'' = testEncodingKey @ ''=''"
  by (simp add: encodeChar_def encodeStd_def testEncodingKey_def)

lemma NewCrypt_test: "NewCrypt ''token'' testEncodingKey ''corpID'' = Inr testCrypt"
proof -
  have "b64_decode (testEncodingKey @ ''='') = Inr ''0123456789abcdef0123456789abcdef''"
    unfolding enc_test [symmetric] by (rule b64_decode_encode)
  moreover have "length testEncodingKey = 43" by (simp add: testEncodingKey_def)
  ultimately show ?thesis
    by (simp add: NewCrypt_def decodeAESKey_def testCrypt_def)
qed

lemma length_plain4G: "length plain4G = 4294967296"
  by (simp only: plain4G_def length_replicate)

lemma length_plain4Gm4: "length plain4Gm4 = 4294967292"
  by (simp only: plain4Gm4_def length_replicate)


section \<open>URL verification of a query-decoded string\<close>

lemma skipNewlines_keeps:
  "x \<in> set s \<Longrightarrow> \<not> isNewline x \<Longrightarrow> x \<in> set (skipNewlines s)"
  by (induction s) auto

lemma decodeMap_space: "decodeMap (CHR '' '') = None"
  by code_simp

lemma decodeLoop_space:
  "CHR '' '' \<in> set s \<Longrightarrow> decodeLoop dbuf s = Inl ()"
proof (induction dbuf s rule: decodeLoop.induct)
  case (1 dbuf)
  then show ?case by simp
next
  case (2 dbuf c src)
  have sp: "\<not> isNewline (CHR '' '')" by (simp add: isNewline_def)
  show ?case
  proof (cases "c = CHR '' ''")
    case True
    then show ?thesis by (simp add: decodeMap_space sp)
  next
    case False
    with "2.prems" have src: "CHR '' '' \<in> set src" by simp
    then have sk: "CHR '' '' \<in> set (skipNewlines src)" using sp by (rule skipNewlines_keeps)
    show ?thesis
    proof (cases "decodeMap c")
      case (Some out)
      then show ?thesis using "2.IH" src by (simp split: sum.splits)
    next
      case None
      have pad: "skipNewlines r \<noteq> []" if "CHR '' '' \<in> set r" for r
        using skipNewlines_keeps [OF that sp] by auto
      show ?thesis
      proof (cases "isNewline c")
        case True
        then show ?thesis using None "2.IH" src by simp
      next
        case nl: False
        show ?thesis
        proof (cases "skipNewlines src")
          case Nil
          then show ?thesis using sk by simp
        next
          case (Cons p r)
          have "CHR '' '' \<in> set r" if "p = CHR ''=''" using sk that Cons by auto
          then show ?thesis using None nl Cons pad [OF src] pad [of r] by auto
        qed
      qed
    qed
  qed
qed

lemma b64_decode_space: "CHR '' '' \<in> set s \<Longrightarrow> b64_decode s = Inl ()"
  by (simp add: b64_decode_def decodeLoop_space)

lemma decrypt_space: "CHR '' '' \<in> set s \<Longrightarrow> decrypt A c s = Inl Base64DecodeError"
  by (simp add: decrypt_def b64_decode_space)

lemma unescapeQuery_plus:
  "validEscapes s \<Longrightarrow> CHR ''+'' \<in> set s \<Longrightarrow> CHR '' '' \<in> set (unescapeQuery s)"
proof (induction s rule: unescapeQuery.induct)
  case 1
  then show ?case by simp
next
  case (2 c s)
  show ?case
  proof (cases "c = CHR ''%''")
    case True
    with "2.prems"(1) obtain a b rest where s: "s = a # b # rest" and h: "ishex a" "ishex b"
      and v: "validEscapes rest"
      by (auto split: list.splits)
    have "CHR ''+'' \<noteq> a" "CHR ''+'' \<noteq> b" using h by (auto simp: ishex_def)
    with "2.prems"(2) True s have "CHR ''+'' \<in> set rest" by auto
    with "2.IH"(1) [OF True s] v have "CHR '' '' \<in> set (unescapeQuery rest)" by simp
    then show ?thesis using True s by simp
  next
    case False
    then show ?thesis using "2.prems" "2.IH"(2,3) by (cases "c = CHR ''+''") auto
  qed
qed

lemma char_of_eval:
  "char_of (n::nat) = Char (odd n) (odd (n div 2)) (odd (n div 4)) (odd (n div 8))
     (odd (n div 16)) (odd (n div 32)) (odd (n div 64)) (odd (n div 128))"
  by (simp add: char_of_def bit_iff_odd)

lemma encrypt_plus:
  "encrypt xorAes testCrypt (Some plusRandom) ''hello'' = Inr ''MDF+MzQ1Njc4OWFiY2RlZgAATAVoZWxsb2NvcnBJRAE=''"
proof -
  have k: "length (aesKey testCrypt) = 32" by (simp add: testCrypt_def)
  have p: "pkcs7Pad (plusRandom @ putUint32 (length ''hello'' mod 4294967296) @ ''hello'' @ corpID testCrypt) 32 =
      ''01~3456789abcdef'' @ [CHR 0x00, CHR 0x00, CHR 0x00, CHR 0x05] @ ''hellocorpID'' @ [CHR 0x01]"
    by (simp add: pkcs7Pad_def bytesRepeat_def plusRandom_def putUint32_def testCrypt_def char_of_eval)
  have c: "cbcEncrypt (encryptBlock xorAes (aesKey testCrypt)) (take 16 (aesKey testCrypt))
        (''01~3456789abcdef'' @ [CHR 0x00, CHR 0x00, CHR 0x00, CHR 0x05] @ ''hellocorpID'' @ [CHR 0x01]) =
      ''01~3456789abcdef'' @ [CHR 0x00, CHR 0x00, CHR ''L'', CHR 0x05] @ ''hellocorpID'' @ [CHR 0x01]"
    by (simp add: cbcEncrypt_step cbcEncrypt_Nil xorBytes_def xorAes_def testCrypt_def)
  have b: "b64_encode (''01~3456789abcdef'' @ [CHR 0x00, CHR 0x00, CHR ''L'', CHR 0x05] @ ''hellocorpID'' @ [CHR 0x01]) =
      ''MDF+MzQ1Njc4OWFiY2RlZgAATAVoZWxsb2NvcnBJRAE=''"
    by (simp add: encodeChar_def encodeStd_def)
  show ?thesis
    by (simp only: encrypt_eq [OF k] p c b)
qed

section \<open>Copying the items of a reply\<close>

lemma sliceElems_length:
  "slice_ok h s \<Longrightarrow> length (sliceElems h s) = sliceLen s"
  by (auto simp: slice_ok_def sliceElems_def sliceLen_def split: option.splits)

lemma sliceElems_sliceMake_other:
  assumes "heap_ok h" "slice_ok h s"
  shows "sliceElems (fst (sliceMake h n)) s = sliceElems h s"
proof (cases s)
  case None
  then show ?thesis by (simp add: sliceElems_def)
next
  case (Some sl)
  with assms(2) obtain a where a: "itemArrays h (arr sl) = Some a"
    by (auto simp: slice_ok_def split: option.splits)
  then have "arr sl < nextAddr h" using assms(1) by (auto simp: heap_ok_def)
  then show ?thesis using Some a by (simp add: sliceElems_def sliceMake_def Let_def)
qed

lemma clone_elems:
  assumes ok: "heap_ok h" "slice_ok h s"
    and mk: "sliceMake h (sliceLen s) = (h1, cloned)"
  shows "sliceElems (sliceCopy h1 cloned s) cloned = sliceElems h s"
    and "cloned = Some \<lparr>arr = nextAddr h, off = 0, len = sliceLen s\<rparr>"
    and "textObjs (sliceCopy h1 cloned s) = textObjs h"
    and "imageObjs (sliceCopy h1 cloned s) = imageObjs h"
    and "itemArrays (sliceCopy h1 cloned s) = (itemArrays h)(nextAddr h \<mapsto> sliceElems h s)"
proof -
  from mk have c: "cloned = Some \<lparr>arr = nextAddr h, off = 0, len = sliceLen s\<rparr>"
    and h1: "h1 = h\<lparr>itemArrays := (itemArrays h)(nextAddr h \<mapsto> replicate (sliceLen s) zeroItem),
                    nextAddr := nextAddr h + 1\<rparr>"
    by (auto simp: sliceMake_def Let_def)
  have e1: "sliceElems h1 s = sliceElems h s"
    using sliceElems_sliceMake_other [OF ok, of "sliceLen s"] mk by simp
  have l: "length (sliceElems h s) = sliceLen s" using ok(2) by (rule sliceElems_length)
  show "cloned = Some \<lparr>arr = nextAddr h, off = 0, len = sliceLen s\<rparr>" by (rule c)
  have arrs: "itemArrays (sliceCopy h1 cloned s) = (itemArrays h)(nextAddr h \<mapsto> sliceElems h s)"
    unfolding c using e1 l by (simp add: sliceCopy_def h1 Let_def)
  show "itemArrays (sliceCopy h1 cloned s) = (itemArrays h)(nextAddr h \<mapsto> sliceElems h s)"
    by (rule arrs)
  have "sliceElems (sliceCopy h1 cloned s) (Some \<lparr>arr = nextAddr h, off = 0, len = sliceLen s\<rparr>) =
      take (sliceLen s) (sliceElems h s)"
    unfolding sliceElems_def [of _ "Some _"] arrs by simp
  then show "sliceElems (sliceCopy h1 cloned s) cloned = sliceElems h s"
    using l by (simp add: c)
  show "textObjs (sliceCopy h1 cloned s) = textObjs h"
    unfolding c by (simp add: sliceCopy_def h1 Let_def)
  show "imageObjs (sliceCopy h1 cloned s) = imageObjs h"
    unfolding c by (simp add: sliceCopy_def h1 Let_def)
qed

lemma itemView_cong:
  "textObjs h' = textObjs h \<Longrightarrow> imageObjs h' = imageObjs h \<Longrightarrow> itemView h' = itemView h"
  by (rule ext) (auto simp: itemView_def split: option.splits)

lemma Build_with_items:
  assumes "finish" "sliceLen its > 0"
  shows "BuildStreamReplyWithMsgItems h streamID content finish its =
     (sliceCopy (fst (sliceMake h (sliceLen its))) (snd (sliceMake h (sliceLen its))) its,
      (BuildStreamReply streamID content finish)
        \<lparr>Reply_Stream := (Reply_Stream (BuildStreamReply streamID content finish))
           \<lparr>Body_MsgItem := snd (sliceMake h (sliceLen its))\<rparr>\<rparr>)"
  using assms by (simp add: BuildStreamReplyWithMsgItems_def Let_def split_beta)

lemma Build_without_items:
  assumes "\<not> (finish \<and> sliceLen its > 0)"
  shows "BuildStreamReplyWithMsgItems h streamID content finish its =
     (h, BuildStreamReply streamID content finish)"
  using assms by (cases finish) (simp_all add: BuildStreamReplyWithMsgItems_def Let_def)

lemma Body_MsgItem_BuildStreamReply:
  "Body_MsgItem (Reply_Stream (BuildStreamReply streamID content finish)) = None"
  by (simp add: BuildStreamReply_def)

lemma heap_ok_testHeap: "heap_ok (testHeap :: unit heap)"
  by (simp add: heap_ok_def testHeap_def)

lemma slice_ok_testItems: "slice_ok (testHeap :: unit heap) testItems"
  by (simp add: slice_ok_def testHeap_def testItems_def)

lemma Build_test:
  "BuildStreamReplyWithMsgItems (testHeap :: unit heap) ''stream-id'' ''content'' True testItems =
     (testHeap\<lparr>itemArrays := [1 \<mapsto> [testImageItem], 2 \<mapsto> [testImageItem]], nextAddr := 3\<rparr>,
      \<lparr>Reply_MsgType = ''stream'',
       Reply_Stream = \<lparr>Body_ID = ''stream-id'', Body_Finish = True, Body_Content = ''content'',
                       Body_MsgItem = Some \<lparr>arr = 2, off = 0, len = 1\<rparr>, Body_Feedback = None\<rparr>\<rparr>)"
  by (simp add: BuildStreamReplyWithMsgItems_def BuildStreamReply_def sliceMake_def sliceCopy_def
        sliceLen_def sliceElems_def testHeap_def testItems_def Let_def)

lemma sliceStore_test:
  "sliceStore (fst (BuildStreamReplyWithMsgItems (testHeap :: unit heap) ''stream-id'' ''content'' True testItems))
     testItems 0 testTextItem =
   Some ((testHeap :: unit heap)\<lparr>itemArrays := [1 \<mapsto> [testTextItem], 2 \<mapsto> [testImageItem]], nextAddr := 3\<rparr>)"
  unfolding Build_test fst_conv
  by (simp add: sliceStore_def testHeap_def testItems_def fun_upd_twist)


lemma Build_reply_items:
  assumes "heap_ok h" and "slice_ok h its" and "sliceLen its > 0"
  shows "replyItems (fst (BuildStreamReplyWithMsgItems h streamID content True its))
           (snd (BuildStreamReplyWithMsgItems h streamID content True its)) =
         map (itemView h) (sliceElems h its)"
proof -
  let ?mk = "sliceMake h (sliceLen its)"
  have mk: "?mk = (fst ?mk, snd ?mk)" by simp
  note cl = clone_elems [OF assms(1,2) mk]
  have "itemView (sliceCopy (fst ?mk) (snd ?mk) its) = itemView h"
    using cl(3,4) by (rule itemView_cong)
  then show ?thesis
    using assms(3) cl(1) by (simp add: Build_with_items replyItems_def)
qed

lemma Build_with_items_fields:
  assumes "sliceLen its > 0"
  shows "Body_ID (Reply_Stream (snd (BuildStreamReplyWithMsgItems h streamID content True its))) = streamID"
    and "Body_Finish (Reply_Stream (snd (BuildStreamReplyWithMsgItems h streamID content True its)))"
    and "Body_Content (Reply_Stream (snd (BuildStreamReplyWithMsgItems h streamID content True its))) = content"
    and "hasMsgItemKey (snd (BuildStreamReplyWithMsgItems h streamID content True its))"
  using assms
  by (simp_all add: Build_with_items BuildStreamReply_def hasMsgItemKey_def sliceMake_def Let_def sliceLen_def)

section \<open>Facts about the stream manager\<close>

lemma drain_eq:
  "drain l f q = (last (l # q), f \<or> (\<exists>c \<in> set q. IsFinal c))"
  by (induction q arbitrary: l f) auto

lemma getStream_Some: "streamID \<noteq> [] \<Longrightarrow> getStream m streamID = streams m streamID"
  by (simp add: getStream_def)

lemma getLatestChunk_queue:
  assumes "streamID \<noteq> []" and "streams m streamID = Some a" and "streamObjs h a = Some s"
    and "queue s \<noteq> []"
  shows "snd (getLatestChunk m h streamID now) =
           Some ((last (queue s))\<lparr>IsFinal := (\<exists>c \<in> set (queue s). IsFinal c)\<rparr>)"
proof -
  from assms(4) obtain first rest where q: "queue s = first # rest" by (cases "queue s") auto
  define L where "L = last (queue s)"
  define F where "F \<longleftrightarrow> (\<exists>c \<in> set (queue s). IsFinal c)"
  have d: "drain first (IsFinal first) rest = (L, F)"
    by (simp add: drain_eq q L_def F_def)
  have r: "snd (getLatestChunk m h streamID now) = Some (if F then L\<lparr>IsFinal := True\<rparr> else L)"
    using assms(1-3) by (simp add: getLatestChunk_def getStream_Some q d Let_def)
  have "L = L\<lparr>IsFinal := False\<rparr>" if "\<not> F"
  proof -
    have "L \<in> set (queue s)" using assms(4) by (simp add: L_def)
    with that have "\<not> IsFinal L" by (auto simp: F_def)
    then show ?thesis by simp
  qed
  then have "(if F then L\<lparr>IsFinal := True\<rparr> else L) = L\<lparr>IsFinal := F\<rparr>" by auto
  then show ?thesis by (simp only: r L_def F_def)
qed

lemma streamObjs_sliceMake: "streamObjs (fst (sliceMake h n)) = streamObjs h"
  by (simp add: sliceMake_def Let_def)

lemma streamObjs_sliceCopy: "streamObjs (sliceCopy h d s) = streamObjs h"
  by (simp add: sliceCopy_def Let_def split: option.splits)

lemma publish_found:
  assumes "getStream m streamID = Some a" and "streamObjs h a = Some s"
  obtains fc s' where
    "Content fc = appendDelta (lastContent s) chunk" "IsFinal fc = IsFinal chunk" "Payload fc = Payload chunk"
    "snd (publish m h streamID chunk now) = (if length (queue s) < 16 then Returned True else Blocked)"
    "streamObjs (fst (publish m h streamID chunk now)) = (streamObjs h)(a \<mapsto> s')"
    "LastChunk s' = Some fc"
    "queue s' = (if length (queue s) < 16 then queue s @ [fc] else queue s)"
    "Finished s' = (if length (queue s) < 16 \<and> IsFinal chunk then True else Finished s)"
proof -
  define fc0 where "fc0 =
    (if Payload chunk = None \<and> LastChunk s \<noteq> None
     then chunk\<lparr>Content := Content (the (LastChunk s)) @ Content chunk\<rparr>
     else if Payload chunk \<noteq> None then chunk\<lparr>Content := [], MsgItems := None\<rparr>
     else chunk)"
  define hc where "hc =
    (if sliceLen (MsgItems fc0) > 0
     then (sliceCopy (fst (sliceMake h (sliceLen (MsgItems fc0)))) (snd (sliceMake h (sliceLen (MsgItems fc0)))) (MsgItems fc0),
           fc0\<lparr>MsgItems := snd (sliceMake h (sliceLen (MsgItems fc0)))\<rparr>)
     else (h, fc0))"
  define s1 where "s1 = s\<lparr>LastAccess := now, LastChunk := Some (snd hc)\<rparr>"
  define s2 where "s2 = s1\<lparr>queue := queue s1 @ [snd hc]\<rparr>"
  define X where "X =
    (if length (queue s) < 16
     then (if IsFinal (snd hc) then s2\<lparr>Finished := True, LastAccess := now\<rparr> else s2)
     else s1)"
  have c0: "Content fc0 = appendDelta (lastContent s) chunk" "IsFinal fc0 = IsFinal chunk" "Payload fc0 = Payload chunk"
    by (auto simp: fc0_def appendDelta_def lastContent_def)
  have hc: "streamObjs (fst hc) = streamObjs h" "Content (snd hc) = appendDelta (lastContent s) chunk"
    "IsFinal (snd hc) = IsFinal chunk" "Payload (snd hc) = Payload chunk"
    by (simp_all add: hc_def c0 streamObjs_sliceCopy streamObjs_sliceMake)
  have p: "publish m h streamID chunk now =
      (if length (queue s1) < 16
       then ((if IsFinal (snd hc)
              then setFinished ((fst hc)\<lparr>streamObjs := (streamObjs (fst hc))(a \<mapsto> s2)\<rparr>) a now
              else (fst hc)\<lparr>streamObjs := (streamObjs (fst hc))(a \<mapsto> s2)\<rparr>),
             Returned True)
       else ((fst hc)\<lparr>streamObjs := (streamObjs (fst hc))(a \<mapsto> s1)\<rparr>, Blocked))"
    unfolding publish_def assms option.case Let_def fc0_def [symmetric] s2_def s1_def
    by (simp add: hc_def split_beta queueCap_def)
  have q1: "queue s1 = queue s" by (simp add: s1_def)
  have r: "snd (publish m h streamID chunk now) = (if length (queue s) < 16 then Returned True else Blocked)"
    by (simp add: p q1)
  have so: "streamObjs (fst (publish m h streamID chunk now)) = (streamObjs h)(a \<mapsto> X)"
    by (simp add: p q1 X_def setFinished_def updStream_def hc(1))
  have "LastChunk X = Some (snd hc)"
    "queue X = (if length (queue s) < 16 then queue s @ [snd hc] else queue s)"
    "Finished X = (if length (queue s) < 16 \<and> IsFinal chunk then True else Finished s)"
    by (simp_all add: X_def s2_def s1_def hc(3))
  with hc(2-4) r so show ?thesis by (rule that)
qed

lemma publish_blocked:
  assumes "getStream m streamID = Some a" and "streamObjs h a = Some s"
    and "\<not> length (queue s) < 16"
  shows "snd (publish m h streamID chunk now) = Blocked"
  by (rule publish_found [OF assms(1,2), of chunk now]) (use assms(3) in simp)




lemma getStream_nonempty: "getStream m streamID = Some a \<Longrightarrow> streamID \<noteq> [] \<and> streams m streamID = Some a"
  by (auto simp: getStream_def split: if_splits)

lemma publish_finished_visible:
  assumes "getStream m streamID = Some a" and "streamObjs h a = Some s"
    and "Finished s" and "length (queue s) < 16"
  shows "\<exists>h' s' fc ch.
           publish m h streamID chunk now = (h', Returned True) \<and>
           streamObjs h' a = Some s' \<and> Finished s' \<and>
           LastChunk s' = Some fc \<and> queue s' = queue s @ [fc] \<and>
           Content fc = appendDelta (lastContent s) chunk \<and>
           snd (getLatestChunk m h' streamID now') = Some ch \<and> Content ch = Content fc"
proof -
  obtain fc s' where f:
    "Content fc = appendDelta (lastContent s) chunk"
    "snd (publish m h streamID chunk now) = (if length (queue s) < 16 then Returned True else Blocked)"
    "streamObjs (fst (publish m h streamID chunk now)) = (streamObjs h)(a \<mapsto> s')"
    "LastChunk s' = Some fc"
    "queue s' = (if length (queue s) < 16 then queue s @ [fc] else queue s)"
    "Finished s' = (if length (queue s) < 16 \<and> IsFinal chunk then True else Finished s)"
    by (rule publish_found [OF assms(1,2), of chunk now]) blast
  let ?h' = "fst (publish m h streamID chunk now)"
  have p: "publish m h streamID chunk now = (?h', Returned True)"
    using f(2) assms(4) by (simp add: prod_eq_iff)
  have so: "streamObjs ?h' a = Some s'" by (simp add: f(3))
  have fin: "Finished s'" using assms(3) by (simp add: f(6))
  have q: "queue s' = queue s @ [fc]" using assms(4) by (simp add: f(5))
  then have ne: "queue s' \<noteq> []" by simp
  note g = getStream_nonempty [OF assms(1)]
  have "snd (getLatestChunk m ?h' streamID now') =
      Some ((last (queue s'))\<lparr>IsFinal := (\<exists>c \<in> set (queue s'). IsFinal c)\<rparr>)"
    by (rule getLatestChunk_queue [OF g [THEN conjunct1] g [THEN conjunct2] so ne])
  then have "snd (getLatestChunk m ?h' streamID now') =
      Some (fc\<lparr>IsFinal := (\<exists>c \<in> set (queue s'). IsFinal c)\<rparr>)"
    by (simp add: q)
  moreover have "Content (fc\<lparr>IsFinal := (\<exists>c \<in> set (queue s'). IsFinal c)\<rparr>) = Content fc" by simp
  ultimately show ?thesis using p so fin f(4) q f(1) by blast
qed



section \<open>Runs of a publisher and a poller\<close>

lemma publishLocked_facts:
  obtains h' fc where
    "publishLocked h a stream chunk now = (h', fc)"
    "Content fc = appendDelta (lastContent stream) chunk"
    "IsFinal fc = IsFinal chunk" "Payload fc = Payload chunk"
    "streamObjs h' = (streamObjs h)(a \<mapsto> stream\<lparr>LastAccess := now, LastChunk := Some fc\<rparr>)"
proof -
  define fc0 where "fc0 =
    (if Payload chunk = None \<and> LastChunk stream \<noteq> None
     then chunk\<lparr>Content := Content (the (LastChunk stream)) @ Content chunk\<rparr>
     else if Payload chunk \<noteq> None then chunk\<lparr>Content := [], MsgItems := None\<rparr>
     else chunk)"
  define hc where "hc =
    (if sliceLen (MsgItems fc0) > 0
     then (sliceCopy (fst (sliceMake h (sliceLen (MsgItems fc0)))) (snd (sliceMake h (sliceLen (MsgItems fc0)))) (MsgItems fc0),
           fc0\<lparr>MsgItems := snd (sliceMake h (sliceLen (MsgItems fc0)))\<rparr>)
     else (h, fc0))"
  have c0: "Content fc0 = appendDelta (lastContent stream) chunk" "IsFinal fc0 = IsFinal chunk"
    "Payload fc0 = Payload chunk"
    by (auto simp: fc0_def appendDelta_def lastContent_def)
  have hc: "streamObjs (fst hc) = streamObjs h" "Content (snd hc) = appendDelta (lastContent stream) chunk"
    "IsFinal (snd hc) = IsFinal chunk" "Payload (snd hc) = Payload chunk"
    by (simp_all add: hc_def c0 streamObjs_sliceCopy streamObjs_sliceMake)
  have p: "publishLocked h a stream chunk now =
      ((fst hc)\<lparr>streamObjs := (streamObjs (fst hc))(a \<mapsto> stream\<lparr>LastAccess := now, LastChunk := Some (snd hc)\<rparr>)\<rparr>,
       snd hc)"
    unfolding publishLocked_def Let_def fc0_def [symmetric]
    by (simp add: hc_def split_beta)
  show ?thesis
    by (rule that [OF p hc(2-4)]) (simp add: hc(1))
qed



lemma publishedChunks_Cons:
  "publishedChunks (e # es) =
     (case e of PubLock chunk now \<Rightarrow> chunk # publishedChunks es | _ \<Rightarrow> publishedChunks es)"
  by (cases e) simp_all

lemma noOverlap_apart: "noOverlap m streamID es s \<Longrightarrow> apart s"
  by (cases es) simp_all


section \<open>Calls that do not overlap\<close>

lemma exec_append:
  "exec m streamID (xs @ ys) s =
     (case exec m streamID xs s of None \<Rightarrow> None | Some s' \<Rightarrow> exec m streamID ys s')"
  by (induction xs arbitrary: s) (simp_all split: option.splits)

lemma noOverlap_append:
  "noOverlap m streamID (xs @ ys) s \<longleftrightarrow>
     noOverlap m streamID xs s \<and>
     (case exec m streamID xs s of None \<Rightarrow> True | Some s' \<Rightarrow> noOverlap m streamID ys s')"
proof (induction xs arbitrary: s)
  case Nil
  show ?case using noOverlap_apart [of m streamID ys s] by auto
next
  case (Cons e xs)
  then show ?case by (auto split: option.splits)
qed

lemma publishedChunks_append:
  "publishedChunks (xs @ ys) = publishedChunks xs @ publishedChunks ys"
  by (induction xs) (simp_all add: publishedChunks_Cons split: event.splits)

lemma step_ofPublisher:
  "ofPublisher e \<Longrightarrow> step m streamID e s = Some s' \<Longrightarrow> poll s' = poll s"
  by (cases e) (auto simp: Let_def split_beta split: pub_state.splits option.splits if_splits)

lemma step_ofPoller:
  "\<not> ofPublisher e \<Longrightarrow> step m streamID e s = Some s' \<Longrightarrow> pub s' = pub s"
  by (cases e) (auto split: poll_state.splits option.splits if_splits list.splits)

lemma noOverlap_publisher:
  "\<forall>e \<in> set es. ofPublisher e \<Longrightarrow> poll s = PollIdle \<Longrightarrow> noOverlap m streamID es s"
proof (induction es arbitrary: s)
  case Nil
  then show ?case by (simp add: apart_def)
next
  case (Cons e es)
  then show ?case
    by (auto simp: apart_def dest: step_ofPublisher split: option.splits)
qed

lemma noOverlap_poller:
  "\<forall>e \<in> set es. \<not> ofPublisher e \<Longrightarrow> pub s = PubIdle \<Longrightarrow> noOverlap m streamID es s"
proof (induction es arbitrary: s)
  case Nil
  then show ?case by (simp add: apart_def)
next
  case (Cons e es)
  then show ?case
    by (auto simp: apart_def dest: step_ofPoller split: option.splits)
qed

lemma noOverlap_publishCall:
  "poll s = PollIdle \<Longrightarrow> noOverlap m streamID (publishCall chunk now) s"
  by (rule noOverlap_publisher) (simp_all add: publishCall_def)

lemma noOverlap_pollCall:
  "pub s = PubIdle \<Longrightarrow> noOverlap m streamID (pollCall n now) s"
  by (rule noOverlap_poller) (simp_all add: pollCall_def)

section \<open>A call, step by step and at once\<close>

text \<open>
  When nothing comes in between, the events of a call do what \<^const>\<open>publish\<close> and
  \<^const>\<open>getLatestChunk\<close> do at once.
\<close>

lemma publish_publishLocked:
  assumes "getStream m streamID = Some a" and "streamObjs h a = Some stream"
  shows "publish m h streamID chunk now =
     (let (h1, fc) = publishLocked h a stream chunk now
      in if length (queue stream) < queueCap
         then ((if IsFinal fc
                then setFinished (h1\<lparr>streamObjs := (streamObjs h1)(a \<mapsto>
                        stream\<lparr>LastAccess := now, LastChunk := Some fc, queue := queue stream @ [fc]\<rparr>)\<rparr>) a now
                else h1\<lparr>streamObjs := (streamObjs h1)(a \<mapsto>
                        stream\<lparr>LastAccess := now, LastChunk := Some fc, queue := queue stream @ [fc]\<rparr>)\<rparr>),
               Returned True)
         else (h1, Blocked))"
  using assms by (simp add: publish_def publishLocked_def Let_def split_beta)

lemma exec_publishCall:
  assumes g: "getStream m streamID = Some a" and so: "streamObjs (store s) a = Some stream"
    and idle: "pub s = PubIdle" and room: "length (queue stream) < 16"
  shows "exec m streamID (publishCall chunk now) s =
           Some (s\<lparr>store := fst (publish m (store s) streamID chunk now), pub := PubIdle,
                   published := published s @ [True]\<rparr>)"
    and "snd (publish m (store s) streamID chunk now) = Returned True"
proof -
  obtain h' fc where f: "publishLocked (store s) a stream chunk now = (h', fc)"
    "IsFinal fc = IsFinal chunk"
    "streamObjs h' = (streamObjs (store s))(a \<mapsto> stream\<lparr>LastAccess := now, LastChunk := Some fc\<rparr>)"
    by (rule publishLocked_facts) blast
  have p: "publish m (store s) streamID chunk now =
      ((if IsFinal chunk
        then setFinished (h'\<lparr>streamObjs := (streamObjs h')(a \<mapsto>
                stream\<lparr>LastAccess := now, LastChunk := Some fc, queue := queue stream @ [fc]\<rparr>)\<rparr>) a now
        else h'\<lparr>streamObjs := (streamObjs h')(a \<mapsto>
                stream\<lparr>LastAccess := now, LastChunk := Some fc, queue := queue stream @ [fc]\<rparr>)\<rparr>),
       Returned True)"
    using room by (simp add: publish_publishLocked [OF g so] f(1,2) queueCap_def)
  show "snd (publish m (store s) streamID chunk now) = Returned True" by (simp add: p)
  have s1: "step m streamID (PubLock chunk now) s = Some (s\<lparr>store := h', pub := PubSending a fc\<rparr>)"
    using g so idle by (simp add: f(1))
  have e1: "exec m streamID (publishCall chunk now) s =
      exec m streamID (PubSend # (if IsFinal chunk then [PubMark now] else []))
        (s\<lparr>store := h', pub := PubSending a fc\<rparr>)"
    unfolding publishCall_def by (simp only: append_Cons append_Nil exec.simps s1 option.case)
  show "exec m streamID (publishCall chunk now) s =
           Some (s\<lparr>store := fst (publish m (store s) streamID chunk now), pub := PubIdle,
                   published := published s @ [True]\<rparr>)"
    unfolding e1 using room by (simp add: f(2,3) p queueCap_def)
qed

lemma exec_drain:
  "poll s = PollDraining a l f \<Longrightarrow> streamObjs (store s) a = Some stream \<Longrightarrow> queue stream = q \<Longrightarrow>
   exec m streamID (replicate (length q) PollRecv) s =
     Some (s\<lparr>store := (store s)\<lparr>streamObjs := (streamObjs (store s))(a \<mapsto> stream\<lparr>queue := []\<rparr>)\<rparr>,
             poll := PollDraining a (fst (drain l f q)) (snd (drain l f q))\<rparr>)"
proof (induction q arbitrary: s l f stream)
  case Nil
  have "stream\<lparr>queue := []\<rparr> = stream" using Nil(3) by simp
  moreover have "(streamObjs (store s))(a \<mapsto> stream) = streamObjs (store s)"
    using Nil(2) by (simp add: map_upd_triv)
  moreover have "s\<lparr>poll := PollDraining a l f\<rparr> = s" using Nil(1) [symmetric] by simp
  ultimately show ?case by simp
next
  case (Cons c q)
  let ?s1 = "s\<lparr>store := (store s)\<lparr>streamObjs := (streamObjs (store s))(a \<mapsto> stream\<lparr>queue := q\<rparr>)\<rparr>,
               poll := PollDraining a c (if IsFinal c then True else f)\<rparr>"
  have st: "step m streamID PollRecv s = Some ?s1"
    using Cons.prems by simp
  let ?X = "?s1\<lparr>store := (store ?s1)\<lparr>streamObjs := (streamObjs (store ?s1))(a \<mapsto> (stream\<lparr>queue := q\<rparr>)\<lparr>queue := []\<rparr>)\<rparr>,
             poll := PollDraining a (fst (drain c (if IsFinal c then True else f) q))
                      (snd (drain c (if IsFinal c then True else f) q))\<rparr>"
  let ?Y = "s\<lparr>store := (store s)\<lparr>streamObjs := (streamObjs (store s))(a \<mapsto> stream\<lparr>queue := []\<rparr>)\<rparr>,
             poll := PollDraining a (fst (drain l f (c # q))) (snd (drain l f (c # q)))\<rparr>"
  have r: "exec m streamID (replicate (length q) PollRecv) ?s1 = Some ?X"
    by (rule Cons.IH) simp_all
  have "store ?X = store ?Y" by (rule heap.equality) simp_all
  then have eq: "?X = ?Y" by (intro sys.equality) simp_all
  show ?case
    by (simp only: length_Cons replicate_Suc exec.simps st option.case r eq)
qed

lemma exec_pollCall:
  assumes g: "getStream m streamID = Some a" and so: "streamObjs (store s) a = Some stream"
    and idle: "poll s = PollIdle"
  shows "exec m streamID (pollCall (length (queue stream)) now) s =
           Some (s\<lparr>store := fst (getLatestChunk m (store s) streamID now), poll := PollIdle,
                   polled := polled s @ [snd (getLatestChunk m (store s) streamID now)]\<rparr>)"
proof -
  from g have ne: "streamID \<noteq> []" by (auto simp: getStream_def split: if_splits)
  let ?t = "stream\<lparr>LastAccess := now\<rparr>"
  let ?s1 = "s\<lparr>store := touch (store s) a now, poll := PollSelect a\<rparr>"
  have s1: "step m streamID (PollTouch now) s = Some ?s1"
    using g ne idle by simp
  have so1: "streamObjs (store ?s1) a = Some ?t"
    using so by (simp add: touch_def updStream_def)
  show ?thesis
  proof (cases "queue stream")
    case Nil
    have "exec m streamID [PollTouch now, PollTimeout now] s =
        Some (s\<lparr>store := fst (getLatestChunk m (store s) streamID now), poll := PollIdle,
                polled := polled s @ [snd (getLatestChunk m (store s) streamID now)]\<rparr>)"
      unfolding exec.simps s1 option.case
      using so ne g Nil by (simp add: so1 getLatestChunk_def touch_def updStream_def)
    then show ?thesis by (simp add: pollCall_def Nil)
  next
    case (Cons c q)
    let ?s2 = "?s1\<lparr>store := (store ?s1)\<lparr>streamObjs := (streamObjs (store ?s1))(a \<mapsto> ?t\<lparr>queue := q\<rparr>)\<rparr>,
                   poll := PollDraining a c (IsFinal c)\<rparr>"
    have s2: "step m streamID PollRecv ?s1 = Some ?s2"
      using so1 Cons by simp
    have so2: "streamObjs (store ?s2) a = Some (?t\<lparr>queue := q\<rparr>)" by simp
    let ?s3 = "?s2\<lparr>store := (store ?s2)\<lparr>streamObjs := (streamObjs (store ?s2))(a \<mapsto> (?t\<lparr>queue := q\<rparr>)\<lparr>queue := []\<rparr>)\<rparr>,
             poll := PollDraining a (fst (drain c (IsFinal c) q)) (snd (drain c (IsFinal c) q))\<rparr>"
    have s3: "exec m streamID (replicate (length q) PollRecv) ?s2 = Some ?s3"
      by (rule exec_drain) simp_all
    have p: "pollCall (length (queue stream)) now =
        [PollTouch now, PollRecv] @ replicate (length q) PollRecv @ [PollDefault, PollStore now]"
      by (simp add: pollCall_def Cons)
    have e: "exec m streamID (pollCall (length (queue stream)) now) s =
        exec m streamID [PollDefault, PollStore now] ?s3"
      unfolding p exec_append
      by (simp only: exec.simps s1 s2 s3 option.case)
    show ?thesis
      unfolding e using so ne g Cons
      by (simp add: getLatestChunk_def updStream_def touch_def split_beta Let_def)
  qed
qed

section \<open>Stream ids\<close>







section \<open>What a refresh leaves alone\<close>

lemma markFinished_frame:
  "textObjs (markFinished m h streamID now) = textObjs h"
  "imageObjs (markFinished m h streamID now) = imageObjs h"
  "itemArrays (markFinished m h streamID now) = itemArrays h"
  "nextAddr (markFinished m h streamID now) = nextAddr h"
  by (simp_all add: markFinished_def setFinished_def updStream_def split: option.splits)

lemma markFinished_stream:
  assumes "streamID \<noteq> []" and "streams m streamID = Some a" and "streamObjs h a = Some s"
  shows "streamObjs (markFinished m h streamID now) =
           (streamObjs h)(a \<mapsto> s\<lparr>Finished := True, LastAccess := now\<rparr>)"
  using assms by (simp add: markFinished_def getStream_Some setFinished_def updStream_def)

lemma getLatestChunk_frame:
  "textObjs (fst (getLatestChunk m h streamID now)) = textObjs h"
  "imageObjs (fst (getLatestChunk m h streamID now)) = imageObjs h"
  "itemArrays (fst (getLatestChunk m h streamID now)) = itemArrays h"
  "nextAddr (fst (getLatestChunk m h streamID now)) = nextAddr h"
  by (simp_all add: getLatestChunk_def Let_def split_beta split: option.splits list.splits)

lemma getLatestChunk_queue_stream:
  assumes "streamID \<noteq> []" and "streams m streamID = Some a" and "streamObjs h a = Some s"
    and "queue s \<noteq> []"
  shows "streamObjs (fst (getLatestChunk m h streamID now)) a =
           Some (s\<lparr>queue := [], LastAccess := now,
                   LastChunk := Some ((last (queue s))\<lparr>IsFinal := (\<exists>c \<in> set (queue s). IsFinal c)\<rparr>),
                   Finished := ((\<exists>c \<in> set (queue s). IsFinal c) \<or> Finished s)\<rparr>)"
proof -
  from assms(4) obtain first rest where q: "queue s = first # rest" by (cases "queue s") auto
  define L where "L = last (queue s)"
  define F where "F \<longleftrightarrow> (\<exists>c \<in> set (queue s). IsFinal c)"
  have d: "drain first (IsFinal first) rest = (L, F)"
    by (simp add: drain_eq q L_def F_def)
  have nf: "\<not> IsFinal L" if "\<not> F"
  proof -
    have "L \<in> set (queue s)" using assms(4) by (simp add: L_def)
    with that show ?thesis by (auto simp: F_def)
  qed
  have "streamObjs (fst (getLatestChunk m h streamID now)) a =
      Some (s\<lparr>queue := [], LastAccess := now, LastChunk := Some (L\<lparr>IsFinal := F\<rparr>),
              Finished := (F \<or> Finished s)\<rparr>)"
  proof (cases F)
    case True
    then show ?thesis using assms(1-3)
      by (simp add: getLatestChunk_def getStream_Some q d Let_def)
  next
    case False
    with nf have "\<not> IsFinal L" by simp
    then have "L\<lparr>IsFinal := False\<rparr> = L" by simp
    then show ?thesis using assms(1-3) False \<open>\<not> IsFinal L\<close>
      by (simp add: getLatestChunk_def getStream_Some q d Let_def)
  qed
  then show ?thesis by (simp only: L_def F_def)
qed

lemma getLatestChunk_empty_queue:
  assumes "streamID \<noteq> []" and "streams m streamID = Some a" and "streamObjs h a = Some s"
    and "queue s = []"
  shows "getLatestChunk m h streamID now =
           (h\<lparr>streamObjs := (streamObjs h)(a \<mapsto> s\<lparr>LastAccess := now\<rparr>)\<rparr>,
            if Finished s \<and> LastChunk s \<noteq> None then LastChunk s else None)"
  using assms by (simp add: getLatestChunk_def getStream_Some Let_def)

lemma Build_frame:
  "streamObjs (fst (BuildStreamReplyWithMsgItems h streamID content finish its)) = streamObjs h"
  "textObjs (fst (BuildStreamReplyWithMsgItems h streamID content finish its)) = textObjs h"
  "imageObjs (fst (BuildStreamReplyWithMsgItems h streamID content finish its)) = imageObjs h"
  by (simp_all add: BuildStreamReplyWithMsgItems_def Let_def split_beta sliceMake_def sliceCopy_def
        split: option.splits)

lemma Build_envelope:
  "Reply_MsgType (snd (BuildStreamReplyWithMsgItems h streamID content finish its)) = ''stream''"
  "Body_Feedback (Reply_Stream (snd (BuildStreamReplyWithMsgItems h streamID content finish its))) = None"
  by (simp_all add: BuildStreamReplyWithMsgItems_def BuildStreamReply_def Let_def split_beta)

section \<open>A reply, as its receiver reads it\<close>

lemma replyBody_EncryptResponse:
  assumes "testMarshal h v = Inr body" and "length body < 4294967292"
  shows "replyBody (EncryptResponse testMarshal xorAes take20 testCrypt (Some testRandom) h v ts nonce) =
           Inr body"
proof -
  have key: "length (aesKey testCrypt) = 32" by (simp add: testCrypt_def)
  have r: "length testRandom = 16" by (simp add: testRandom_def)
  have m: "length body mod 4294967296 = length body" using assms(2) by simp
  from decrypt_encrypt [OF aes_inverse_xorAes key r, of body]
  have d: "(case encrypt xorAes testCrypt (Some testRandom) body of Inl e \<Rightarrow> Inl e
            | Inr s \<Rightarrow> decrypt xorAes testCrypt s) = Inr body"
    using assms(2) by (simp add: m)
  show ?thesis
    using d by (simp add: replyBody_def EncryptResponse_def assms(1) Let_def split: sum.splits)
qed


section \<open>Every list of chunks has a run without overlap\<close>

lemma publishedChunks_publishCall: "publishedChunks (publishCall chunk now) = [chunk]"
  by (simp add: publishCall_def)

lemma publishedChunks_pollCall: "publishedChunks (pollCall n now) = []"
proof -
  have "publishedChunks (replicate k PollRecv @ es) = publishedChunks es" for k and es :: "'a event list"
    by (induction k) simp_all
  then show ?thesis by (simp add: pollCall_def)
qed

lemma publishedChunks_rounds: "publishedChunks (rounds cs) = map fst cs"
  by (induction cs rule: rounds.induct)
    (simp_all add: publishedChunks_append publishedChunks_publishCall publishedChunks_pollCall)

lemma exec_rounds:
  assumes g: "getStream m streamID = Some a"
  shows "streamObjs (store s) a = Some stream \<Longrightarrow> queue stream = [] \<Longrightarrow>
         pub s = PubIdle \<Longrightarrow> poll s = PollIdle \<Longrightarrow>
         \<exists>s' stream'. exec m streamID (rounds cs) s = Some s' \<and> noOverlap m streamID (rounds cs) s \<and>
            streamObjs (store s') a = Some stream' \<and> queue stream' = [] \<and>
            pub s' = PubIdle \<and> poll s' = PollIdle \<and>
            published s' = published s @ replicate (length cs) True"
proof (induction cs arbitrary: s stream)
  case Nil
  then show ?case by (simp add: apart_def)
next
  case (Cons x cs)
  obtain chunk now where x: "x = (chunk, now)" by (cases x)
  from g have ne: "streamID \<noteq> []" and st: "streams m streamID = Some a"
    by (auto simp: getStream_def split: if_splits)
  have room: "length (queue stream) < 16" using Cons.prems(2) by simp
  let ?s1 = "s\<lparr>store := fst (publish m (store s) streamID chunk now), pub := PubIdle,
               published := published s @ [True]\<rparr>"
  have e1: "exec m streamID (publishCall chunk now) s = Some ?s1"
    by (rule exec_publishCall(1) [OF g Cons.prems(1,3) room])
  obtain fc stream1 where f:
    "streamObjs (fst (publish m (store s) streamID chunk now)) = (streamObjs (store s))(a \<mapsto> stream1)"
    "queue stream1 = (if length (queue stream) < 16 then queue stream @ [fc] else queue stream)"
    by (rule publish_found [OF g Cons.prems(1), of chunk now]) blast
  have so1: "streamObjs (store ?s1) a = Some stream1" by (simp add: f(1))
  have q1: "queue stream1 = [fc]" using Cons.prems(2) by (simp add: f(2))
  then have l1: "length (queue stream1) = 1" by simp
  let ?s2 = "?s1\<lparr>store := fst (getLatestChunk m (store ?s1) streamID now), poll := PollIdle,
               polled := polled ?s1 @ [snd (getLatestChunk m (store ?s1) streamID now)]\<rparr>"
  have "exec m streamID (pollCall (length (queue stream1)) now) ?s1 = Some ?s2"
    by (rule exec_pollCall [OF g so1]) (simp add: Cons.prems(4))
  then have e2: "exec m streamID (pollCall 1 now) ?s1 = Some ?s2" by (simp only: l1)
  have "queue stream1 \<noteq> []" by (simp add: q1)
  from getLatestChunk_queue_stream [OF ne st so1 this, of now]
  obtain stream2 where so2: "streamObjs (store ?s2) a = Some stream2" and q2: "queue stream2 = []"
    by simp
  have i2: "pub ?s2 = PubIdle" "poll ?s2 = PollIdle" by simp_all
  from Cons.IH [OF so2 q2 i2] obtain s' stream' where r:
    "exec m streamID (rounds cs) ?s2 = Some s'" "noOverlap m streamID (rounds cs) ?s2"
    "streamObjs (store s') a = Some stream'" "queue stream' = []"
    "pub s' = PubIdle" "poll s' = PollIdle"
    "published s' = published ?s2 @ replicate (length cs) True"
    by blast
  have ex: "exec m streamID (rounds (x # cs)) s = Some s'"
    by (simp only: x rounds.simps exec_append e1 e2 r(1) option.case)
  have n1: "noOverlap m streamID (publishCall chunk now) s"
    by (rule noOverlap_publishCall [OF Cons.prems(4)])
  have n2: "noOverlap m streamID (pollCall 1 now) ?s1"
    by (rule noOverlap_pollCall) simp
  have no: "noOverlap m streamID (rounds (x # cs)) s"
    by (simp only: x rounds.simps noOverlap_append e1 e2 option.case n1 n2 r(2) simp_thms)
  have "published s' = published s @ replicate (length (x # cs)) True"
    by (simp add: r(7) replicate_append_same)
  with ex no r(3-6) show ?case by blast
qed

section \<open>The last chunk is never taken away\<close>




section \<open>A poll that is overtaken\<close>

text \<open>
  When the calls overlap the cumulative text can lose a delta. \<^verbatim>\<open>getLatestChunk\<close>
  receives without holding the lock and stores \<open>latestChunk\<close> into \<^verbatim>\<open>stream.LastChunk\<close>
  later; a \<^verbatim>\<open>publish\<close> whose section under the lock runs in between builds on the newer
  chunk, the poll then puts the older one back, and the next \<^verbatim>\<open>publish\<close> appends to
  that. In \<^const>\<open>overtakenRun\<close> the three publishes of \<open>a\<close>, \<open>b\<close>, \<open>c\<close> all return
  \<open>true\<close>, the poll returns \<open>a\<close>, and the text left in \<^verbatim>\<open>stream.LastChunk\<close> is \<open>ac\<close>.
\<close>

lemma overtakenRun_loses_delta:
  "map_option (\<lambda>s. (map_option lastContent (streamObjs (store s) 5), published s,
                      map (map_option Content) (polled s), pub s, poll s))
     (exec testManager ''s1'' overtakenRun (testSys (testStream [] None False))) =
     Some (Some ''ac'', [True, True, True], [Some ''a''], PubIdle, PollIdle) \<and>
   \<not> noOverlap testManager ''s1'' overtakenRun (testSys (testStream [] None False :: string Stream)) \<and>
   map Content (publishedChunks overtakenRun) = [''a'', ''b'', ''c'']"
  by (simp add: overtakenRun_def testSys_def testManager_def getStream_def streamHeap_def testStream_def
      textChunk_def publishLocked_def sliceLen_def queueCap_def setFinished_def updStream_def touch_def
      lastContent_def apart_def Let_def)

text \<open>
  Every list of chunks can be published without overlap, whatever its length: in
  \<^term>\<open>rounds cs\<close> each \<^verbatim>\<open>publish\<close> returns \<open>true\<close> and the poll after it empties the
  queue.
\<close>

lemma every_chunk_list_has_a_run:
  assumes "getStream m streamID = Some a" and "streamObjs (store s) a = Some stream"
    and "queue stream = []" and "pub s = PubIdle" and "poll s = PollIdle"
  shows "\<exists>es s'. publishedChunks es = map fst (cs :: ('a Chunk \<times> time) list) \<and>
           exec m streamID es s = Some s' \<and>
           noOverlap m streamID es s \<and> pub s' = PubIdle \<and> poll s' = PollIdle \<and>
           published s' = published s @ replicate (length cs) True"
proof -
  from exec_rounds [OF assms, of cs] obtain s' where
    "exec m streamID (rounds cs) s = Some s'" "noOverlap m streamID (rounds cs) s"
    "pub s' = PubIdle" "poll s' = PollIdle"
    "published s' = published s @ replicate (length cs) True"
    by (elim exE conjE)
  with publishedChunks_rounds [of cs] show ?thesis by (intro exI conjI)
qed

section \<open>Claims about key decoding\<close>

text \<open>
  Claim C8 (key decoding), as amended. Construction pads the key with \<open>=\<close> to a multiple
  of four characters and Base64-decodes it. It fails exactly when decoding fails or the
  decoded key is not 32 bytes long; the error is \<^verbatim>\<open>ErrInvalidAESKey\<close> for a wrong length
  and the wrapped decoding error ("decode aes key: ...") for a decoding failure;
  otherwise it succeeds with the 32 decoded bytes as key.
\<close>

theorem NewCrypt_key_decoding:
  "NewCrypt tok k corp =
     (case b64_decode (spec_pad_key k) of
        Inl e \<Rightarrow> Inl DecodeAESKeyError
      | Inr key \<Rightarrow>
          if length key = 32 then Inr \<lparr>token = tok, aesKey = key, corpID = corp\<rparr>
          else Inl ErrInvalidAESKey)"
proof (cases "k = []")
  case True
  then show ?thesis
    by (simp add: NewCrypt_def decodeAESKey_def spec_pad_key.simps [of "[]"] b64_decode_empty)
next
  case False
  then show ?thesis
    by (simp add: NewCrypt_def decodeAESKey_def spec_pad_key_eq Let_def split: sum.splits)
qed

text \<open>
  The claim as stated fails on a key that does not decode: the key \<open>!\<close> is rejected
  with the wrapped decoding error, not with \<^verbatim>\<open>ErrInvalidAESKey\<close>.
\<close>

theorem NewCrypt_decode_failure_counterexample:
  "isl (b64_decode (spec_pad_key ''!'')) \<and> NewCrypt ''tok'' ''!'' ''corp'' \<noteq> Inl ErrInvalidAESKey"
  by code_simp


section \<open>Claims about the cryptography\<close>

text \<open>
  Claim C1 (Crypt round trip), as amended. For a block cipher whose decryption undoes
  its encryption, a context built by \<open>NewCrypt\<close>, 16 random bytes and a plaintext of
  fewer than \<open>2 ^ 32 - 4\<close> bytes, encrypting and then decrypting gives the plaintext
  back unchanged.
\<close>

theorem crypt_round_trip:
  assumes "aes_inverse A" and "NewCrypt tok k corp = Inr c" and "length r = 16"
    and "length P < 4294967292"
  shows "(case encrypt A c (Some r) P of Inl e \<Rightarrow> Inl e | Inr s \<Rightarrow> decrypt A c s) = Inr P"
  using assms(4)
  by (simp add: decrypt_encrypt [OF assms(1) NewCrypt_aesKey [OF assms(2)] assms(3)])

theorem crypt_round_trip_witness:
  "aes_inverse xorAes \<and> NewCrypt ''token'' testEncodingKey ''corpID'' = Inr testCrypt \<and>
   length testRandom = 16 \<and> length ''hello'' < (4294967292 :: nat) \<and>
   (case encrypt xorAes testCrypt (Some testRandom) ''hello'' of
      Inl e \<Rightarrow> Inl e | Inr s \<Rightarrow> decrypt xorAes testCrypt s) = Inr ''hello''"
proof -
  have h3: "length testRandom = 16" by (simp add: testRandom_def)
  have h4: "length ''hello'' < (4294967292 :: nat)" by simp
  show ?thesis
    by (intro conjI aes_inverse_xorAes NewCrypt_test h3 h4
          crypt_round_trip [OF aes_inverse_xorAes NewCrypt_test h3 h4])
qed

text \<open>
  The claim as stated, for every plaintext, fails where \<^verbatim>\<open>uint32(len(plain))\<close> loses
  bits: a plaintext of \<open>2 ^ 32\<close> bytes is written with length field 0 and decrypts to
  the empty byte string.
\<close>

theorem crypt_round_trip_4G_counterexample:
  "(case encrypt xorAes testCrypt (Some testRandom) plain4G of
      Inl e \<Rightarrow> Inl e | Inr s \<Rightarrow> decrypt xorAes testCrypt s) = Inr [] \<and>
   plain4G \<noteq> []"
proof -
  have k: "length (aesKey testCrypt) = 32" by (simp add: testCrypt_def)
  have r: "length testRandom = 16" by (simp add: testRandom_def)
  have "plain4G \<noteq> []" using length_plain4G by auto
  then show ?thesis
    by (simp add: decrypt_encrypt [OF aes_inverse_xorAes k r] length_plain4G)
qed

text \<open>
  Claim C9 (framing extraction in bounds) does not hold of the code. The guard compares
  \<^verbatim>\<open>int(msgLen)\<close> with the bytes that remain, but the slice bound \<^verbatim>\<open>4+msgLen\<close> is
  computed in \<^verbatim>\<open>uint32\<close>: when the length field is \<open>2 ^ 32 - 4\<close> or more and that many
  bytes are present, the bound wraps below 4 and the slice expression panics. Encrypting
  a plaintext whose length is at least \<open>2 ^ 32 - 4\<close> modulo \<open>2 ^ 32\<close> produces such an input.
\<close>

theorem decrypt_slice_panic:
  assumes "aes_inverse A" and "NewCrypt tok k corp = Inr c" and "length r = 16"
    and "4294967292 \<le> length P mod 4294967296"
  shows "(case encrypt A c (Some r) P of Inl e \<Rightarrow> Inl e | Inr s \<Rightarrow> decrypt A c s) =
           Inl SliceBoundsPanic"
  using assms(4)
  by (simp add: decrypt_encrypt [OF assms(1) NewCrypt_aesKey [OF assms(2)] assms(3)])

theorem decrypt_slice_panic_witness:
  "aes_inverse xorAes \<and> NewCrypt ''token'' testEncodingKey ''corpID'' = Inr testCrypt \<and>
   length testRandom = 16 \<and> 4294967292 \<le> length plain4Gm4 mod 4294967296 \<and>
   (case encrypt xorAes testCrypt (Some testRandom) plain4Gm4 of
      Inl e \<Rightarrow> Inl e | Inr s \<Rightarrow> decrypt xorAes testCrypt s) = Inl SliceBoundsPanic"
proof -
  have h3: "length testRandom = 16" by (simp add: testRandom_def)
  have h4: "4294967292 \<le> length plain4Gm4 mod 4294967296" by (simp add: length_plain4Gm4)
  show ?thesis
    using decrypt_slice_panic [OF aes_inverse_xorAes NewCrypt_test h3 h4]
      aes_inverse_xorAes NewCrypt_test h3 h4 by simp
qed


section \<open>Claims about URL verification\<close>

text \<open>
  Claim C5 (URL-verify repair) does not hold of the code. When \<open>s\<close> contains \<open>+\<close> and
  the caller passes its query-decoded form (every \<open>+\<close> turned into a space),
  \<open>VerifyURL\<close> fails for every signature, so also for the one computed over \<open>s\<close>: the
  retry unescapes the string once more, which leaves the spaces in place, and the
  string that is decrypted is the one passed in, which is not Base64.
\<close>

theorem VerifyURL_query_decoded_fails:
  assumes "CHR ''+'' \<in> set s" and "QueryUnescape s = Inr echoStr"
  shows "isl (VerifyURL A sha1 c msgSignature timestamp nonce echoStr)"
proof -
  from assms have "CHR '' '' \<in> set echoStr"
    by (auto simp: QueryUnescape_def unescapeQuery_plus split: if_splits)
  then have "decrypt A c echoStr = Inl Base64DecodeError" by (rule decrypt_space)
  then show ?thesis
    by (simp add: VerifyURL_def split: sum.splits)
qed

theorem VerifyURL_query_decoded_fails_witness:
  "encrypt xorAes testCrypt (Some plusRandom) ''hello'' = Inr ''MDF+MzQ1Njc4OWFiY2RlZgAATAVoZWxsb2NvcnBJRAE='' \<and>
   CHR ''+'' \<in> set ''MDF+MzQ1Njc4OWFiY2RlZgAATAVoZWxsb2NvcnBJRAE='' \<and>
   QueryUnescape ''MDF+MzQ1Njc4OWFiY2RlZgAATAVoZWxsb2NvcnBJRAE='' =
     Inr ''MDF MzQ1Njc4OWFiY2RlZgAATAVoZWxsb2NvcnBJRAE='' \<and>
   isl (VerifyURL xorAes take20 testCrypt
          (CalcSignature take20 ''token'' ''1761891968'' ''nonce'' ''MDF+MzQ1Njc4OWFiY2RlZgAATAVoZWxsb2NvcnBJRAE='')
          ''1761891968'' ''nonce'' ''MDF MzQ1Njc4OWFiY2RlZgAATAVoZWxsb2NvcnBJRAE='')"
proof -
  have h1: "CHR ''+'' \<in> set ''MDF+MzQ1Njc4OWFiY2RlZgAATAVoZWxsb2NvcnBJRAE=''" by simp
  have h2: "QueryUnescape ''MDF+MzQ1Njc4OWFiY2RlZgAATAVoZWxsb2NvcnBJRAE='' =
      Inr ''MDF MzQ1Njc4OWFiY2RlZgAATAVoZWxsb2NvcnBJRAE=''"
    by (simp add: QueryUnescape_def)
  show ?thesis
    by (intro conjI encrypt_plus h1 h2 VerifyURL_query_decoded_fails [OF h1 h2])
qed


section \<open>Claims about the reply builders\<close>

text \<open>
  Claim C7 (\<open>msg_item\<close> gating and copying), as amended. \<open>BuildStreamReplyWithMsgItems\<close>
  attaches items exactly when \<open>finish\<close> holds and the items are not empty, so a reply
  with \<open>finish = false\<close> is serialized without a \<open>msg_item\<close> key. The attached items
  are a copy of the slice: what the reply serializes is what the passed items held, and
  a later assignment to an element of the caller's slice does not change it. The copy
  is shallow, as the package's test says: the payloads behind the pointers of an item
  stay shared with the caller.
\<close>

theorem BuildStreamReplyWithMsgItems_copy:
  assumes "heap_ok h" and "slice_ok h its"
    and "BuildStreamReplyWithMsgItems h streamID content finish its = (h', reply)"
  shows "(hasMsgItemKey reply \<longleftrightarrow> finish \<and> sliceLen its > 0) \<and>
         replyItems h' reply = (if finish then map (itemView h) (sliceElems h its) else []) \<and>
         (\<forall>i v h''. sliceStore h' its i v = Some h'' \<longrightarrow> replyItems h'' reply = replyItems h' reply)"
proof (intro conjI)
  let ?mk = "sliceMake h (sliceLen its)"
  have mk: "?mk = (fst ?mk, snd ?mk)" by simp
  note cl = clone_elems [OF assms(1,2) mk]
  have yes: "h' = sliceCopy (fst ?mk) (snd ?mk) its \<and> Body_MsgItem (Reply_Stream reply) = snd ?mk"
    if "finish \<and> sliceLen its > 0"
    using assms(3) that by (auto simp: Build_with_items)
  have no: "h' = h \<and> Body_MsgItem (Reply_Stream reply) = None"
    if "\<not> (finish \<and> sliceLen its > 0)"
    using assms(3) that by (auto simp: Build_without_items Body_MsgItem_BuildStreamReply)
  show "hasMsgItemKey reply \<longleftrightarrow> finish \<and> sliceLen its > 0"
  proof (cases "finish \<and> sliceLen its > 0")
    case True
    then show ?thesis using yes [OF True] cl(2) by (simp add: hasMsgItemKey_def sliceLen_def)
  next
    case False
    then show ?thesis using no [OF False] by (simp add: hasMsgItemKey_def sliceLen_def)
  qed
  show "replyItems h' reply = (if finish then map (itemView h) (sliceElems h its) else [])"
  proof (cases "finish \<and> sliceLen its > 0")
    case True
    have "itemView h' = itemView h"
      using yes [OF True] cl(3,4) by (intro itemView_cong) simp_all
    then show ?thesis
      using True yes [OF True] cl(1) by (simp add: replyItems_def)
  next
    case False
    then have n: "\<not> finish \<or> sliceElems h its = []"
      using sliceElems_length [OF assms(2)] by auto
    then show ?thesis using no [OF False] by (auto simp: replyItems_def sliceElems_def)
  qed
  show "\<forall>i v h''. sliceStore h' its i v = Some h'' \<longrightarrow> replyItems h'' reply = replyItems h' reply"
  proof (intro allI impI)
    fix i v h''
    assume st: "sliceStore h' its i v = Some h''"
    then obtain sl where its: "its = Some sl"
      by (cases its) (simp_all add: sliceStore_def)
    with st obtain a where a: "itemArrays h' (arr sl) = Some a"
      by (cases "itemArrays h' (arr sl)") (simp_all add: sliceStore_def)
    have h'': "h'' = h'\<lparr>itemArrays := (itemArrays h')(arr sl \<mapsto> a[off sl + i := v])\<rparr>"
      using st its a by (simp add: sliceStore_def split: if_splits)
    from assms(2) its obtain a0 where a0: "itemArrays h (arr sl) = Some a0"
      by (cases "itemArrays h (arr sl)") (simp_all add: slice_ok_def)
    then have "arr sl \<in> dom (itemArrays h)" by blast
    then have lt: "arr sl < nextAddr h" using assms(1) by (simp add: heap_ok_def)
    have tv: "itemView h'' = itemView h'" by (rule itemView_cong) (simp_all add: h'')
    show "replyItems h'' reply = replyItems h' reply"
    proof (cases "finish \<and> sliceLen its > 0")
      case True
      have "sliceElems h'' (snd ?mk) = sliceElems h' (snd ?mk)"
        using lt unfolding cl(2) by (simp add: sliceElems_def h'')
      then show ?thesis using yes [OF True] by (simp add: replyItems_def tv)
    next
      case False
      then show ?thesis using no [OF False] by (simp add: replyItems_def sliceElems_def)
    qed
  qed
qed

theorem BuildStreamReplyWithMsgItems_copy_witness:
  "heap_ok (testHeap :: unit heap) \<and> slice_ok (testHeap :: unit heap) testItems \<and>
   hasMsgItemKey (snd (BuildStreamReplyWithMsgItems (testHeap :: unit heap) ''stream-id'' ''content'' True testItems)) \<and>
   replyItems (fst (BuildStreamReplyWithMsgItems (testHeap :: unit heap) ''stream-id'' ''content'' True testItems))
     (snd (BuildStreamReplyWithMsgItems (testHeap :: unit heap) ''stream-id'' ''content'' True testItems)) =
     [(''image'', None, Some \<lparr>URL = [], Base64 = ''BASE64'', MD5 = ''MD5''\<rparr>)] \<and>
   replyItems ((testHeap :: unit heap)\<lparr>itemArrays := [1 \<mapsto> [testTextItem], 2 \<mapsto> [testImageItem]], nextAddr := 3\<rparr>)
     (snd (BuildStreamReplyWithMsgItems (testHeap :: unit heap) ''stream-id'' ''content'' True testItems)) =
     [(''image'', None, Some \<lparr>URL = [], Base64 = ''BASE64'', MD5 = ''MD5''\<rparr>)] \<and>
   \<not> hasMsgItemKey (snd (BuildStreamReplyWithMsgItems (testHeap :: unit heap) ''stream-id'' ''content'' False testItems))"
proof -
  let ?b = "BuildStreamReplyWithMsgItems (testHeap :: unit heap) ''stream-id'' ''content'' True testItems"
  let ?c = "BuildStreamReplyWithMsgItems (testHeap :: unit heap) ''stream-id'' ''content'' False testItems"
  have t: "?b = (fst ?b, snd ?b)" and f: "?c = (fst ?c, snd ?c)" by simp_all
  have v: "map (itemView (testHeap :: unit heap)) (sliceElems testHeap testItems) =
      [(''image'', None, Some \<lparr>URL = [], Base64 = ''BASE64'', MD5 = ''MD5''\<rparr>)]"
    by (simp add: itemView_def sliceElems_def testHeap_def testItems_def testImageItem_def)
  have l: "sliceLen testItems = 1" by (simp add: sliceLen_def testItems_def)
  note T = BuildStreamReplyWithMsgItems_copy [OF heap_ok_testHeap slice_ok_testItems t]
  note F = BuildStreamReplyWithMsgItems_copy [OF heap_ok_testHeap slice_ok_testItems f]
  have T1: "hasMsgItemKey (snd ?b)" using T l by simp
  have T2: "replyItems (fst ?b) (snd ?b) =
      [(''image'', None, Some \<lparr>URL = [], Base64 = ''BASE64'', MD5 = ''MD5''\<rparr>)]"
    using T v by simp
  have T3: "replyItems ((testHeap :: unit heap)\<lparr>itemArrays := [1 \<mapsto> [testTextItem], 2 \<mapsto> [testImageItem]], nextAddr := 3\<rparr>) (snd ?b) =
      replyItems (fst ?b) (snd ?b)"
    using T sliceStore_test by blast
  have F1: "\<not> hasMsgItemKey (snd ?c)" using F by simp
  show ?thesis
    by (intro conjI heap_ok_testHeap slice_ok_testItems T1 T2 F1) (simp only: T3 T2)
qed

text \<open>
  The claim as stated, which extends to mutation through nested pointers, fails: after
  the caller writes through the image pointer of the item it passed, the reply
  serializes the changed image.
\<close>

theorem BuildStreamReplyWithMsgItems_nested_pointer_counterexample:
  "replyItems
     (imageSetBase64 (fst (BuildStreamReplyWithMsgItems (testHeap :: unit heap) ''stream-id'' ''content'' True testItems))
        0 ''CHANGED'')
     (snd (BuildStreamReplyWithMsgItems (testHeap :: unit heap) ''stream-id'' ''content'' True testItems)) \<noteq>
   replyItems
     (fst (BuildStreamReplyWithMsgItems (testHeap :: unit heap) ''stream-id'' ''content'' True testItems))
     (snd (BuildStreamReplyWithMsgItems (testHeap :: unit heap) ''stream-id'' ''content'' True testItems))"
  unfolding Build_test fst_conv snd_conv
  by (simp add: replyItems_def sliceElems_def itemView_def imageSetBase64_def
        testHeap_def testImageItem_def)


section \<open>Claims about the stream manager\<close>







text \<open>
  Claim C4 (publishes after \<open>finished\<close>), as amended. \<open>publish\<close> does not consult the
  \<open>finished\<close> flag. On a finished stream whose queue has room it returns \<open>true\<close>, leaves
  the flag set, stores the new cumulative snapshot as last chunk and enqueues it, and
  the next \<open>getLatestChunk\<close> returns that snapshot.
\<close>

theorem publish_after_finished:
  assumes "getStream m streamID = Some a" and "streamObjs h a = Some s"
    and "Finished s" and "length (queue s) < 16"
  shows "\<exists>h' s' fc ch.
           publish m h streamID chunk now = (h', Returned True) \<and>
           streamObjs h' a = Some s' \<and> Finished s' \<and>
           LastChunk s' = Some fc \<and> queue s' = queue s @ [fc] \<and>
           Content fc = appendDelta (lastContent s) chunk \<and>
           snd (getLatestChunk m h' streamID now') = Some ch \<and> Content ch = Content fc"
  using assms by (rule publish_finished_visible)

theorem publish_after_finished_witness:
  "getStream testManager ''s1'' = Some 5 \<and>
   streamObjs (streamHeap (testStream [] (Some (textChunk ''done'' True)) True :: string Stream)) 5 =
     Some (testStream [] (Some (textChunk ''done'' True)) True) \<and>
   Finished (testStream [] (Some (textChunk ''done'' True)) True :: string Stream) \<and>
   length (queue (testStream [] (Some (textChunk ''done'' True)) True :: string Stream)) < 16 \<and>
   snd (publish testManager (streamHeap (testStream [] (Some (textChunk ''done'' True)) True :: string Stream))
          ''s1'' (textChunk ''x'' False) 1) = Returned True \<and>
   map_option Content
     (snd (getLatestChunk testManager
             (fst (publish testManager (streamHeap (testStream [] (Some (textChunk ''done'' True)) True :: string Stream))
                     ''s1'' (textChunk ''x'' False) 1))
             ''s1'' 2)) = Some ''donex''"
proof -
  let ?S = "testStream [] (Some (textChunk ''done'' True)) True :: string Stream"
  let ?p = "publish testManager (streamHeap ?S) ''s1'' (textChunk ''x'' False) 1"
  have h1: "getStream testManager ''s1'' = Some 5" by (simp add: getStream_def testManager_def)
  have h2: "streamObjs (streamHeap ?S) 5 = Some ?S" by (simp add: streamHeap_def)
  have h3: "Finished ?S" by (simp add: testStream_def)
  have h4: "length (queue ?S) < 16" by (simp add: testStream_def)
  have t: "appendDelta (lastContent ?S) (textChunk ''x'' False :: string Chunk) = ''donex''"
    by (simp add: appendDelta_def lastContent_def testStream_def textChunk_def)
  from publish_after_finished [OF h1 h2 h3 h4, of "textChunk ''x'' False" 1 2]
  obtain h' and fc ch :: "string Chunk" where "?p = (h', Returned True)" "Content fc = ''donex''"
    "snd (getLatestChunk testManager h' ''s1'' 2) = Some ch" "Content ch = Content fc"
    unfolding t by blast
  then have "snd ?p = Returned True"
    "map_option Content (snd (getLatestChunk testManager (fst ?p) ''s1'' 2)) = Some ''donex''"
    by simp_all
  with h1 h2 h3 h4 show ?thesis by simp
qed

text \<open>
  The claim as stated fails: on a finished stream with an empty queue a poll returns
  the cached last chunk \<open>done\<close>; after one more publish of the delta \<open>x\<close> the poll
  returns the new snapshot \<open>donex\<close>.
\<close>

theorem publish_after_finished_counterexample:
  "Finished (testStream [] (Some (textChunk ''done'' True)) True :: string Stream) \<and>
   map_option Content
     (snd (getLatestChunk testManager
             (streamHeap (testStream [] (Some (textChunk ''done'' True)) True :: string Stream)) ''s1'' 2)) =
     Some ''done'' \<and>
   map_option Content
     (snd (getLatestChunk testManager
             (fst (publish testManager (streamHeap (testStream [] (Some (textChunk ''done'' True)) True :: string Stream))
                     ''s1'' (textChunk ''x'' False) 1))
             ''s1'' 2)) = Some ''donex''"
proof -
  let ?S = "testStream [] (Some (textChunk ''done'' True)) True :: string Stream"
  let ?p = "publish testManager (streamHeap ?S) ''s1'' (textChunk ''x'' False) 1"
  have h1: "getStream testManager ''s1'' = Some 5" by (simp add: getStream_def testManager_def)
  have h2: "streamObjs (streamHeap ?S) 5 = Some ?S" by (simp add: streamHeap_def)
  have h3: "Finished ?S" by (simp add: testStream_def)
  have h4: "length (queue ?S) < 16" by (simp add: testStream_def)
  have before: "map_option Content (snd (getLatestChunk testManager (streamHeap ?S) ''s1'' 2)) = Some ''done''"
    by (simp add: getLatestChunk_def h1 h2) (simp add: testStream_def textChunk_def)
  have t: "appendDelta (lastContent ?S) (textChunk ''x'' False :: string Chunk) = ''donex''"
    by (simp add: appendDelta_def lastContent_def testStream_def textChunk_def)
  from publish_finished_visible [OF h1 h2 h3 h4, of "textChunk ''x'' False" 1 2]
  obtain h' and fc ch :: "string Chunk" where "?p = (h', Returned True)" "Content fc = ''donex''"
    "snd (getLatestChunk testManager h' ''s1'' 2) = Some ch" "Content ch = Content fc"
    unfolding t by blast
  then have "map_option Content (snd (getLatestChunk testManager (fst ?p) ''s1'' 2)) = Some ''donex''"
    by simp
  with h3 before show ?thesis by simp
qed




section \<open>Claims about the dispatcher\<close>

text \<open>
  Claim C6 (reply shape of a refresh). With the stream id read from the incoming stream
  payload: an empty id gives the terminator \<open>{id: "", finish: true, content: ""}\<close>; when
  \<open>getLatestChunk\<close> returns nothing the reply is the keep-alive
  \<open>{id, finish: false, content: ""}\<close>; otherwise \<open>markFinished\<close> is called if the chunk
  is final, so that in each of the three cases the sessions in the resulting store
  are those that \<open>markFinished\<close> leaves for a final chunk and those that
  \<open>getLatestChunk\<close> leaves for any other; and then a chunk with a payload has
  that payload encrypted in place of a stream reply, a final chunk with items gives a
  stream reply with \<open>msg_item\<close> attached, and any other chunk gives a bare stream reply
  with the cumulative content.
\<close>

theorem refresh_reply_shape:
  "(case Msg_Stream msg of None \<Rightarrow> [] | Some sp \<Rightarrow> SP_ID sp) = streamID \<Longrightarrow>
   (streamID = [] \<longrightarrow>
      refresh jsonMarshal A sha1 c rnd m h msg timestamp nonce now now' =
        (h, EncryptResponse jsonMarshal A sha1 c rnd h
              (StreamReplyValue
                 \<lparr>Reply_MsgType = ''stream'',
                  Reply_Stream = \<lparr>Body_ID = [], Body_Finish = True, Body_Content = [],
                                  Body_MsgItem = None, Body_Feedback = None\<rparr>\<rparr>)
              timestamp nonce)) \<and>
   (streamID \<noteq> [] \<longrightarrow>
      (case getLatestChunk m h streamID now of
         (h1, None) \<Rightarrow>
           refresh jsonMarshal A sha1 c rnd m h msg timestamp nonce now now' =
             (h1, EncryptResponse jsonMarshal A sha1 c rnd h1
                    (StreamReplyValue
                       \<lparr>Reply_MsgType = ''stream'',
                        Reply_Stream = \<lparr>Body_ID = streamID, Body_Finish = False, Body_Content = [],
                                        Body_MsgItem = None, Body_Feedback = None\<rparr>\<rparr>)
                    timestamp nonce)
       | (h1, Some chunk) \<Rightarrow>
           (let h2 = (if IsFinal chunk then markFinished m h1 streamID now' else h1)
            in streamObjs (fst (refresh jsonMarshal A sha1 c rnd m h msg timestamp nonce now now')) =
                 streamObjs h2 \<and>
               (case Payload chunk of
                  Some p \<Rightarrow>
                    refresh jsonMarshal A sha1 c rnd m h msg timestamp nonce now now' =
                      (h2, EncryptResponse jsonMarshal A sha1 c rnd h2 (PayloadValue p) timestamp nonce)
                | None \<Rightarrow>
                    if IsFinal chunk \<and> sliceLen (MsgItems chunk) > 0
                    then
                      (\<exists>h3 reply.
                         refresh jsonMarshal A sha1 c rnd m h msg timestamp nonce now now' =
                           (h3, EncryptResponse jsonMarshal A sha1 c rnd h3 (StreamReplyValue reply) timestamp nonce) \<and>
                         streamObjs h3 = streamObjs (markFinished m h1 streamID now') \<and>
                         textObjs h3 = textObjs h1 \<and> imageObjs h3 = imageObjs h1 \<and>
                         Reply_MsgType reply = ''stream'' \<and>
                         Body_ID (Reply_Stream reply) = streamID \<and>
                         Body_Finish (Reply_Stream reply) \<and>
                         Body_Content (Reply_Stream reply) = Content chunk \<and>
                         Body_Feedback (Reply_Stream reply) = None \<and>
                         hasMsgItemKey reply \<and>
                         (heap_ok h2 \<and> slice_ok h2 (MsgItems chunk) \<longrightarrow>
                            replyItems h3 reply = map (itemView h2) (sliceElems h2 (MsgItems chunk))))
                    else
                      refresh jsonMarshal A sha1 c rnd m h msg timestamp nonce now now' =
                        (h2, EncryptResponse jsonMarshal A sha1 c rnd h2
                               (StreamReplyValue
                                  \<lparr>Reply_MsgType = ''stream'',
                                   Reply_Stream = \<lparr>Body_ID = streamID, Body_Finish = IsFinal chunk,
                                                   Body_Content = Content chunk,
                                                   Body_MsgItem = None, Body_Feedback = None\<rparr>\<rparr>)
                               timestamp nonce)))))"
proof (intro conjI impI)
  assume sid: "(case Msg_Stream msg of None \<Rightarrow> [] | Some sp \<Rightarrow> SP_ID sp) = streamID"
  let ?R = "refresh jsonMarshal A sha1 c rnd m h msg timestamp nonce now now'"
  {
    assume "streamID = []"
    then show "?R =
        (h, EncryptResponse jsonMarshal A sha1 c rnd h
              (StreamReplyValue
                 \<lparr>Reply_MsgType = ''stream'',
                  Reply_Stream = \<lparr>Body_ID = [], Body_Finish = True, Body_Content = [],
                                  Body_MsgItem = None, Body_Feedback = None\<rparr>\<rparr>)
              timestamp nonce)"
      using sid by (simp add: refresh_def BuildStreamReply_def)
  next
    assume ne: "streamID \<noteq> []"
    obtain h1 r where g: "getLatestChunk m h streamID now = (h1, r)" by force
    show "case getLatestChunk m h streamID now of
         (h1, None) \<Rightarrow>
           ?R =
             (h1, EncryptResponse jsonMarshal A sha1 c rnd h1
                    (StreamReplyValue
                       \<lparr>Reply_MsgType = ''stream'',
                        Reply_Stream = \<lparr>Body_ID = streamID, Body_Finish = False, Body_Content = [],
                                        Body_MsgItem = None, Body_Feedback = None\<rparr>\<rparr>)
                    timestamp nonce)
       | (h1, Some chunk) \<Rightarrow>
           (let h2 = (if IsFinal chunk then markFinished m h1 streamID now' else h1)
            in streamObjs (fst ?R) = streamObjs h2 \<and>
               (case Payload chunk of
                  Some p \<Rightarrow>
                    ?R = (h2, EncryptResponse jsonMarshal A sha1 c rnd h2 (PayloadValue p) timestamp nonce)
                | None \<Rightarrow>
                    if IsFinal chunk \<and> sliceLen (MsgItems chunk) > 0
                    then
                      (\<exists>h3 reply.
                         ?R =
                           (h3, EncryptResponse jsonMarshal A sha1 c rnd h3 (StreamReplyValue reply) timestamp nonce) \<and>
                         streamObjs h3 = streamObjs (markFinished m h1 streamID now') \<and>
                         textObjs h3 = textObjs h1 \<and> imageObjs h3 = imageObjs h1 \<and>
                         Reply_MsgType reply = ''stream'' \<and>
                         Body_ID (Reply_Stream reply) = streamID \<and>
                         Body_Finish (Reply_Stream reply) \<and>
                         Body_Content (Reply_Stream reply) = Content chunk \<and>
                         Body_Feedback (Reply_Stream reply) = None \<and>
                         hasMsgItemKey reply \<and>
                         (heap_ok h2 \<and> slice_ok h2 (MsgItems chunk) \<longrightarrow>
                            replyItems h3 reply = map (itemView h2) (sliceElems h2 (MsgItems chunk))))
                    else
                      ?R =
                        (h2, EncryptResponse jsonMarshal A sha1 c rnd h2
                               (StreamReplyValue
                                  \<lparr>Reply_MsgType = ''stream'',
                                   Reply_Stream = \<lparr>Body_ID = streamID, Body_Finish = IsFinal chunk,
                                                   Body_Content = Content chunk,
                                                   Body_MsgItem = None, Body_Feedback = None\<rparr>\<rparr>)
                               timestamp nonce)))"
    proof (cases r)
      case None
      then show ?thesis using sid ne g by (simp add: refresh_def BuildStreamReply_def)
    next
      case (Some chunk)
      define h2 where "h2 = (if IsFinal chunk then markFinished m h1 streamID now' else h1)"
      show ?thesis
      proof (cases "Payload chunk")
        case (Some p)
        then show ?thesis using sid ne g \<open>r = Some chunk\<close>
          by (simp add: refresh_def Let_def)
      next
        case None
        show ?thesis
        proof (cases "IsFinal chunk \<and> sliceLen (MsgItems chunk) > 0")
          case True
          let ?b = "BuildStreamReplyWithMsgItems h2 streamID (Content chunk) True (MsgItems chunk)"
          have h2m: "h2 = markFinished m h1 streamID now'" using True by (simp add: h2_def)
          have rf: "?R =
              (fst ?b, EncryptResponse jsonMarshal A sha1 c rnd (fst ?b) (StreamReplyValue (snd ?b)) timestamp nonce)"
            using sid ne g \<open>r = Some chunk\<close> None True
            by (simp add: refresh_def Let_def split_beta h2_def)
          have items: "replyItems (fst ?b) (snd ?b) = map (itemView h2) (sliceElems h2 (MsgItems chunk))"
            if "heap_ok h2" "slice_ok h2 (MsgItems chunk)"
          proof -
            from True have "sliceLen (MsgItems chunk) > 0" by simp
            from Build_reply_items [OF that this] show ?thesis .
          qed
          from True have pos: "sliceLen (MsgItems chunk) > 0" by simp
          have fr: "streamObjs (fst ?b) = streamObjs (markFinished m h1 streamID now')"
            "textObjs (fst ?b) = textObjs h1" "imageObjs (fst ?b) = imageObjs h1"
            by (simp_all add: Build_frame h2m markFinished_frame)
          have ex: "\<exists>h3 reply.
                  ?R =
                    (h3, EncryptResponse jsonMarshal A sha1 c rnd h3 (StreamReplyValue reply) timestamp nonce) \<and>
                  streamObjs h3 = streamObjs (markFinished m h1 streamID now') \<and>
                  textObjs h3 = textObjs h1 \<and> imageObjs h3 = imageObjs h1 \<and>
                  Reply_MsgType reply = ''stream'' \<and>
                  Body_ID (Reply_Stream reply) = streamID \<and>
                  Body_Finish (Reply_Stream reply) \<and>
                  Body_Content (Reply_Stream reply) = Content chunk \<and>
                  Body_Feedback (Reply_Stream reply) = None \<and>
                  hasMsgItemKey reply \<and>
                  (heap_ok h2 \<and> slice_ok h2 (MsgItems chunk) \<longrightarrow>
                     replyItems h3 reply = map (itemView h2) (sliceElems h2 (MsgItems chunk)))"
            using rf fr Build_with_items_fields [OF pos, of h2 streamID "Content chunk"]
              Build_envelope [of h2 streamID "Content chunk" True "MsgItems chunk"] items
            by blast
          have "streamObjs (fst ?R) = streamObjs h2" using rf fr(1) by (simp add: h2m)
          with ex show ?thesis using g \<open>r = Some chunk\<close> None True by (simp add: h2_def Let_def)
        next
          case False
          then show ?thesis using sid ne g \<open>r = Some chunk\<close> None
            by (cases "IsFinal chunk") (simp_all add: refresh_def Let_def BuildStreamReply_def)
        qed
      qed
    qed
  }
qed

text \<open>
  Six refreshes on the test manager, each reply as its receiver decrypts it, with the
  finished flag and the last access time of the session afterwards: the terminator, the
  keep-alive, a payload, a final chunk with an image item, a chunk that is not final,
  and a final chunk without items. The clock reads 9 in \<open>getLatestChunk\<close> and 10 in
  \<open>markFinished\<close>.
\<close>

theorem refresh_reply_shape_witness:
  "replyBody (snd (testRefresh (streamHeap (testStream [] None False)) (refreshMsg []))) =
     Inr ''{msgtype:stream,stream:{id:,finish:true,content:}}'' \<and>
   sessionState (fst (testRefresh (streamHeap (testStream [] None False)) (refreshMsg []))) =
     Some (False, 0) \<and>
   replyBody (snd (testRefresh (streamHeap (testStream [] None False)) (refreshMsg ''s1''))) =
     Inr ''{msgtype:stream,stream:{id:s1,finish:false,content:}}'' \<and>
   sessionState (fst (testRefresh (streamHeap (testStream [] None False)) (refreshMsg ''s1''))) =
     Some (False, 9) \<and>
   replyBody (snd (testRefresh (streamHeap (testStream [payloadChunk ''{card}''] None False)) (refreshMsg ''s1''))) =
     Inr ''{card}'' \<and>
   sessionState (fst (testRefresh (streamHeap (testStream [payloadChunk ''{card}''] None False)) (refreshMsg ''s1''))) =
     Some (False, 9) \<and>
   replyBody (snd (testRefresh (itemsStreamHeap (testStream [itemsChunk] None False)) (refreshMsg ''s1''))) =
     Inr ''{msgtype:stream,stream:{id:s1,finish:true,content:Hello!,msg_item:[{msgtype:image,image:{base64:BASE64,md5:MD5}}]}}'' \<and>
   sessionState (fst (testRefresh (itemsStreamHeap (testStream [itemsChunk] None False)) (refreshMsg ''s1''))) =
     Some (True, 10) \<and>
   replyBody (snd (testRefresh (streamHeap (testStream [textChunk ''Hel'' False] None False)) (refreshMsg ''s1''))) =
     Inr ''{msgtype:stream,stream:{id:s1,finish:false,content:Hel}}'' \<and>
   sessionState (fst (testRefresh (streamHeap (testStream [textChunk ''Hel'' False] None False)) (refreshMsg ''s1''))) =
     Some (False, 9) \<and>
   replyBody (snd (testRefresh (streamHeap (testStream [textChunk ''Hello!'' True] None False)) (refreshMsg ''s1''))) =
     Inr ''{msgtype:stream,stream:{id:s1,finish:true,content:Hello!}}'' \<and>
   sessionState (fst (testRefresh (streamHeap (testStream [textChunk ''Hello!'' True] None False)) (refreshMsg ''s1''))) =
     Some (True, 10)"
proof -
  have ne: "''s1'' \<noteq> []" by simp
  have st: "streams testManager ''s1'' = Some 5" by (simp add: testManager_def)
  have so: "streamObjs (streamHeap S) 5 = Some S" for S :: "string Stream"
    by (simp add: streamHeap_def)
  have so': "streamObjs (itemsStreamHeap S) 5 = Some S" for S
    by (simp add: itemsStreamHeap_def)
  have s0: "(case Msg_Stream (refreshMsg []) of None \<Rightarrow> [] | Some sp \<Rightarrow> SP_ID sp) = []"
    by (simp add: refreshMsg_def)
  have s1: "(case Msg_Stream (refreshMsg ''s1'') of None \<Rightarrow> [] | Some sp \<Rightarrow> SP_ID sp) = ''s1''"
    by (simp add: refreshMsg_def)
  note body = replyBody_EncryptResponse
  \<comment> \<open>the terminator\<close>
  let ?h0 = "streamHeap (testStream [] None False) :: string heap"
  have c1: "replyBody (snd (testRefresh ?h0 (refreshMsg []))) =
        Inr ''{msgtype:stream,stream:{id:,finish:true,content:}}''"
      "sessionState (fst (testRefresh ?h0 (refreshMsg []))) = Some (False, 0)"
    using refresh_reply_shape [OF s0, of testMarshal xorAes take20 testCrypt "Some testRandom"
        testManager ?h0 "''1700000000''" "''nonce''" 9 10]
    by (simp_all add: testRefresh_def body testMarshal_def showBool_def hasMsgItemKey_def sliceLen_def
          sessionState_def streamHeap_def testStream_def)
  \<comment> \<open>the keep-alive\<close>
  have g2: "getLatestChunk testManager ?h0 ''s1'' 9 =
      (?h0\<lparr>streamObjs := (streamObjs ?h0)(5 \<mapsto> (testStream [] None False)\<lparr>LastAccess := 9\<rparr>)\<rparr>, None)"
    by (simp add: getLatestChunk_empty_queue [OF ne st so] testStream_def)
  define k2 :: "string heap" where
    "k2 = ?h0\<lparr>streamObjs := (streamObjs ?h0)(5 \<mapsto> (testStream [] None False)\<lparr>LastAccess := 9\<rparr>)\<rparr>"
  from refresh_reply_shape [OF s1, of testMarshal xorAes take20 testCrypt "Some testRandom"
        testManager ?h0 "''1700000000''" "''nonce''" 9 10]
  have r2: "testRefresh ?h0 (refreshMsg ''s1'') =
      (k2, EncryptResponse testMarshal xorAes take20 testCrypt (Some testRandom) k2
             (StreamReplyValue
                \<lparr>Reply_MsgType = ''stream'',
                 Reply_Stream = \<lparr>Body_ID = ''s1'', Body_Finish = False, Body_Content = [],
                                 Body_MsgItem = None, Body_Feedback = None\<rparr>\<rparr>)
             ''1700000000'' ''nonce'')"
    unfolding g2 k2_def [symmetric] testRefresh_def by simp
  have c2: "replyBody (snd (testRefresh ?h0 (refreshMsg ''s1''))) =
        Inr ''{msgtype:stream,stream:{id:s1,finish:false,content:}}''"
      "sessionState (fst (testRefresh ?h0 (refreshMsg ''s1''))) = Some (False, 9)"
    unfolding r2
    by (simp_all add: body testMarshal_def showBool_def hasMsgItemKey_def sliceLen_def
          sessionState_def k2_def testStream_def)
  \<comment> \<open>a payload\<close>
  let ?h3 = "streamHeap (testStream [payloadChunk ''{card}''] None False) :: string heap"
  define k3 where "k3 = fst (getLatestChunk testManager ?h3 ''s1'' 9)"
  have q3: "queue (testStream [payloadChunk ''{card}''] None False :: string Stream) \<noteq> []"
    by (simp add: testStream_def)
  have g3: "getLatestChunk testManager ?h3 ''s1'' 9 = (k3, Some (payloadChunk ''{card}''))"
    using getLatestChunk_queue [OF ne st so q3, of 9]
    by (simp add: k3_def prod_eq_iff testStream_def payloadChunk_def)
  have k3s: "sessionState k3 = Some (False, 9)"
    using getLatestChunk_queue_stream [OF ne st so q3, of 9]
    by (simp add: k3_def sessionState_def testStream_def payloadChunk_def)
  from refresh_reply_shape [OF s1, of testMarshal xorAes take20 testCrypt "Some testRandom"
        testManager ?h3 "''1700000000''" "''nonce''" 9 10]
  have r3: "testRefresh ?h3 (refreshMsg ''s1'') =
      (k3, EncryptResponse testMarshal xorAes take20 testCrypt (Some testRandom) k3
             (PayloadValue ''{card}'') ''1700000000'' ''nonce'')"
    unfolding g3 testRefresh_def by (simp add: payloadChunk_def)
  have c3: "replyBody (snd (testRefresh ?h3 (refreshMsg ''s1''))) = Inr ''{card}''"
      "sessionState (fst (testRefresh ?h3 (refreshMsg ''s1''))) = Some (False, 9)"
    unfolding r3 by (simp_all add: body testMarshal_def k3s)
  \<comment> \<open>a chunk that is not final\<close>
  let ?h5 = "streamHeap (testStream [textChunk ''Hel'' False] None False) :: string heap"
  define k5 where "k5 = fst (getLatestChunk testManager ?h5 ''s1'' 9)"
  have q5: "queue (testStream [textChunk ''Hel'' False] None False :: string Stream) \<noteq> []"
    by (simp add: testStream_def)
  have g5: "getLatestChunk testManager ?h5 ''s1'' 9 = (k5, Some (textChunk ''Hel'' False))"
    using getLatestChunk_queue [OF ne st so q5, of 9]
    by (simp add: k5_def prod_eq_iff testStream_def textChunk_def)
  have k5s: "sessionState k5 = Some (False, 9)"
    using getLatestChunk_queue_stream [OF ne st so q5, of 9]
    by (simp add: k5_def sessionState_def testStream_def textChunk_def)
  from refresh_reply_shape [OF s1, of testMarshal xorAes take20 testCrypt "Some testRandom"
        testManager ?h5 "''1700000000''" "''nonce''" 9 10]
  have r5: "testRefresh ?h5 (refreshMsg ''s1'') =
      (k5, EncryptResponse testMarshal xorAes take20 testCrypt (Some testRandom) k5
             (StreamReplyValue
                \<lparr>Reply_MsgType = ''stream'',
                 Reply_Stream = \<lparr>Body_ID = ''s1'', Body_Finish = False, Body_Content = ''Hel'',
                                 Body_MsgItem = None, Body_Feedback = None\<rparr>\<rparr>)
             ''1700000000'' ''nonce'')"
    unfolding g5 testRefresh_def by (simp add: textChunk_def sliceLen_def)
  have c5: "replyBody (snd (testRefresh ?h5 (refreshMsg ''s1''))) =
        Inr ''{msgtype:stream,stream:{id:s1,finish:false,content:Hel}}''"
      "sessionState (fst (testRefresh ?h5 (refreshMsg ''s1''))) = Some (False, 9)"
    unfolding r5
    by (simp_all add: body testMarshal_def showBool_def hasMsgItemKey_def sliceLen_def k5s)
  \<comment> \<open>a final chunk without items\<close>
  let ?h6 = "streamHeap (testStream [textChunk ''Hello!'' True] None False) :: string heap"
  define k6 where "k6 = fst (getLatestChunk testManager ?h6 ''s1'' 9)"
  have q6: "queue (testStream [textChunk ''Hello!'' True] None False :: string Stream) \<noteq> []"
    by (simp add: testStream_def)
  have g6: "getLatestChunk testManager ?h6 ''s1'' 9 = (k6, Some (textChunk ''Hello!'' True))"
    using getLatestChunk_queue [OF ne st so q6, of 9]
    by (simp add: k6_def prod_eq_iff testStream_def textChunk_def)
  have k6o: "streamObjs k6 5 =
      Some ((testStream [textChunk ''Hello!'' True] None False)
              \<lparr>queue := [], LastAccess := 9, LastChunk := Some (textChunk ''Hello!'' True),
               Finished := True\<rparr>)"
    using getLatestChunk_queue_stream [OF ne st so q6, of 9]
    by (simp add: k6_def testStream_def textChunk_def)
  have k6s: "sessionState (markFinished testManager k6 ''s1'' 10) = Some (True, 10)"
    by (simp add: sessionState_def markFinished_stream [OF ne st k6o])
  from refresh_reply_shape [OF s1, of testMarshal xorAes take20 testCrypt "Some testRandom"
        testManager ?h6 "''1700000000''" "''nonce''" 9 10]
  have r6: "testRefresh ?h6 (refreshMsg ''s1'') =
      (markFinished testManager k6 ''s1'' 10,
       EncryptResponse testMarshal xorAes take20 testCrypt (Some testRandom)
         (markFinished testManager k6 ''s1'' 10)
         (StreamReplyValue
            \<lparr>Reply_MsgType = ''stream'',
             Reply_Stream = \<lparr>Body_ID = ''s1'', Body_Finish = True, Body_Content = ''Hello!'',
                             Body_MsgItem = None, Body_Feedback = None\<rparr>\<rparr>)
         ''1700000000'' ''nonce'')"
    unfolding g6 testRefresh_def by (simp add: textChunk_def sliceLen_def Let_def)
  have c6: "replyBody (snd (testRefresh ?h6 (refreshMsg ''s1''))) =
        Inr ''{msgtype:stream,stream:{id:s1,finish:true,content:Hello!}}''"
      "sessionState (fst (testRefresh ?h6 (refreshMsg ''s1''))) = Some (True, 10)"
    unfolding r6
    by (simp_all add: body testMarshal_def showBool_def hasMsgItemKey_def sliceLen_def k6s)
  \<comment> \<open>a final chunk with an image item\<close>
  let ?h4 = "itemsStreamHeap (testStream [itemsChunk] None False)"
  define k4 where "k4 = fst (getLatestChunk testManager ?h4 ''s1'' 9)"
  define f4 where "f4 = markFinished testManager k4 ''s1'' 10"
  have q4: "queue (testStream [itemsChunk] None False) \<noteq> []"
    by (simp add: testStream_def)
  have g4: "getLatestChunk testManager ?h4 ''s1'' 9 = (k4, Some itemsChunk)"
    using getLatestChunk_queue [OF ne st so' q4, of 9]
    by (simp add: k4_def prod_eq_iff testStream_def itemsChunk_def)
  have k4o: "streamObjs k4 5 =
      Some ((testStream [itemsChunk] None False)
              \<lparr>queue := [], LastAccess := 9, LastChunk := Some itemsChunk, Finished := True\<rparr>)"
    using getLatestChunk_queue_stream [OF ne st so' q4, of 9]
    by (simp add: k4_def testStream_def itemsChunk_def)
  have f4s: "sessionState f4 = Some (True, 10)"
    by (simp add: sessionState_def f4_def markFinished_stream [OF ne st k4o])
  have f4f: "itemArrays f4 = [1 \<mapsto> [testImageItem]]" "nextAddr f4 = 6"
      "imageObjs f4 = [0 \<mapsto> \<lparr>URL = [], Base64 = ''BASE64'', MD5 = ''MD5''\<rparr>]"
      "textObjs f4 = Map.empty"
    by (simp_all add: f4_def k4_def markFinished_frame getLatestChunk_frame itemsStreamHeap_def
          testHeap_def)
  have ok4: "heap_ok f4" "slice_ok f4 testItems"
    by (simp_all add: heap_ok_def slice_ok_def f4f testItems_def testImageItem_def)
  have v4: "map (itemView f4) (sliceElems f4 testItems) =
      [(''image'', None, Some \<lparr>URL = [], Base64 = ''BASE64'', MD5 = ''MD5''\<rparr>)]"
    by (simp add: sliceElems_def itemView_def f4f testItems_def testImageItem_def)
  have l4: "sliceLen (MsgItems itemsChunk) > 0" "IsFinal itemsChunk" "Payload itemsChunk = None"
    "Content itemsChunk = ''Hello!''" "MsgItems itemsChunk = testItems"
    by (simp_all add: itemsChunk_def testItems_def sliceLen_def)
  from refresh_reply_shape [OF s1, of testMarshal xorAes take20 testCrypt "Some testRandom"
        testManager ?h4 "''1700000000''" "''nonce''" 9 10]
  obtain h3 reply where r4:
      "testRefresh ?h4 (refreshMsg ''s1'') =
         (h3, EncryptResponse testMarshal xorAes take20 testCrypt (Some testRandom) h3
                (StreamReplyValue reply) ''1700000000'' ''nonce'')"
      "streamObjs h3 = streamObjs f4"
      "Reply_MsgType reply = ''stream''" "Body_ID (Reply_Stream reply) = ''s1''"
      "Body_Finish (Reply_Stream reply)" "Body_Content (Reply_Stream reply) = ''Hello!''"
      "hasMsgItemKey reply"
      "replyItems h3 reply = [(''image'', None, Some \<lparr>URL = [], Base64 = ''BASE64'', MD5 = ''MD5''\<rparr>)]"
    unfolding g4 testRefresh_def f4_def [symmetric]
    using l4 ok4 v4 by (auto simp: f4_def [symmetric] Let_def)
  have c4: "replyBody (snd (testRefresh ?h4 (refreshMsg ''s1''))) =
        Inr ''{msgtype:stream,stream:{id:s1,finish:true,content:Hello!,msg_item:[{msgtype:image,image:{base64:BASE64,md5:MD5}}]}}''"
      "sessionState (fst (testRefresh ?h4 (refreshMsg ''s1''))) = Some (True, 10)"
    unfolding r4(1) using f4s
    by (simp_all add: body testMarshal_def showBool_def showItem_def r4(2-8) sessionState_def)
  from c1 c2 c3 c4 c5 c6 show ?thesis by simp
qed

end
